theory Spec2Isabelle
  imports Main "HOL-Library.Sublist" "HOL-Library.Char_ord" "HOL-Library.List_Lexorder"
    "HOL-Library.AList"
begin

section \<open>Values and errors\<close>

text \<open>
  The script \<^verbatim>\<open>scripts/clean-menu-data.py\<close> works on what \<^verbatim>\<open>json.load\<close> returns:
  \<^verbatim>\<open>None\<close>, booleans, integers, strings, lists and dictionaries. A Python \<^verbatim>\<open>str\<close> is a
  \<^typ>\<open>string\<close> with one \<^typ>\<open>char\<close> per code point, for the code points U+0000 to U+00FF.
  A dictionary is an association list in insertion order, read with \<^const>\<open>map_of\<close>.
  JSON numbers with a fraction or an exponent (Python floats) are not represented.
\<close>

datatype json =
    JNull
  | JBool bool
  | JInt int
  | JStr string
  | JArr "json list"
  | JObj "(string \<times> json) list"

text \<open>The exceptions the script can raise; none of them is caught.\<close>

datatype py_error =
    AttributeError
  | TypeError
  | KeyError string
  | JSONDecodeError
  | FileNotFoundError

section \<open>The Python built-ins the script calls\<close>

subsection \<open>\<^verbatim>\<open>str.lower\<close>, \<^verbatim>\<open>in\<close>, \<^verbatim>\<open>str.join\<close>, \<^verbatim>\<open>str.replace\<close>\<close>

text \<open>
  \<^verbatim>\<open>str.lower\<close> on U+0000 to U+00FF: the letters A to Z, and U+00C0 to U+00DE
  without the multiplication sign U+00D7, move up by 32; nothing else changes.
\<close>

definition lower_char :: "char \<Rightarrow> char" where
  "lower_char c =
     (let n = (of_char c :: nat)
      in if (65 \<le> n \<and> n \<le> 90) \<or> (192 \<le> n \<and> n \<le> 222 \<and> n \<noteq> 215)
         then char_of (n + 32) else c)"

definition py_lower :: "string \<Rightarrow> string" where
  "py_lower s = map lower_char s"

text \<open>\<^verbatim>\<open>pattern in text\<close>: the pattern occurs as a contiguous piece of the text.\<close>

fun py_in :: "string \<Rightarrow> string \<Rightarrow> bool" where
  "py_in pat [] = (pat = [])"
| "py_in pat (c # cs) = (prefix pat (c # cs) \<or> py_in pat cs)"

fun py_join :: "string \<Rightarrow> string list \<Rightarrow> string" where
  "py_join sep [] = []"
| "py_join sep [x] = x"
| "py_join sep (x # y # ys) = x @ sep @ py_join sep (y # ys)"

text \<open>
  \<^verbatim>\<open>s.replace(old, new)\<close> for a non-empty \<^verbatim>\<open>old\<close>: scan from the left, replace each
  occurrence and go on behind it.
\<close>

fun py_replace :: "string \<Rightarrow> string \<Rightarrow> string \<Rightarrow> string" where
  "py_replace old new [] = []"
| "py_replace old new (c # cs) =
     (if old \<noteq> [] \<and> prefix old (c # cs)
      then new @ py_replace old new (drop (length old) (c # cs))
      else c # py_replace old new cs)"

subsection \<open>\<^verbatim>\<open>str()\<close> and \<^verbatim>\<open>repr()\<close>, as an f-string field formats a value\<close>

definition digit_char :: "nat \<Rightarrow> char" where
  "digit_char d = char_of (48 + d)"

fun digits10 :: "nat \<Rightarrow> string" where
  "digits10 n = (if n < 10 then [digit_char n] else digits10 (n div 10) @ [digit_char (n mod 10)])"

declare digits10.simps [simp del]

definition str_nat :: "nat \<Rightarrow> string" where
  "str_nat n = digits10 n"

definition str_int :: "int \<Rightarrow> string" where
  "str_int i = (if i < 0 then CHR ''-'' # digits10 (nat (- i)) else digits10 (nat i))"

definition hex_char :: "nat \<Rightarrow> char" where
  "hex_char d = (if d < 10 then char_of (48 + d) else char_of (87 + d))"

text \<open>
  \<^verbatim>\<open>repr\<close> of a string: single quotes, unless the string holds a single quote and no
  double quote; the quote in use and the backslash get a backslash; tab, newline and
  carriage return are written \<^verbatim>\<open>\t\<close>, \<^verbatim>\<open>\n\<close>, \<^verbatim>\<open>\r\<close>; the other characters that are not
  printable (below U+0020, U+007F to U+00A0, U+00AD) are written \<^verbatim>\<open>\xhh\<close>.
\<close>

definition repr_char :: "char \<Rightarrow> char \<Rightarrow> string" where
  "repr_char q c =
     (let n = (of_char c :: nat)
      in if c = q \<or> c = CHR 0x5C then [CHR 0x5C, c]
         else if n = 9 then [CHR 0x5C, CHR ''t'']
         else if n = 10 then [CHR 0x5C, CHR ''n'']
         else if n = 13 then [CHR 0x5C, CHR ''r'']
         else if n < 32 \<or> (127 \<le> n \<and> n \<le> 160) \<or> n = 173
           then [CHR 0x5C, CHR ''x'', hex_char (n div 16), hex_char (n mod 16)]
         else [c])"

definition repr_str :: "string \<Rightarrow> string" where
  "repr_str s =
     (let q = (if CHR 0x27 \<in> set s \<and> CHR 0x22 \<notin> set s then CHR 0x22 else CHR 0x27)
      in [q] @ concat (map (repr_char q) s) @ [q])"

primrec py_repr :: "json \<Rightarrow> string" where
  "py_repr JNull = ''None''"
| "py_repr (JBool b) = (if b then ''True'' else ''False'')"
| "py_repr (JInt i) = str_int i"
| "py_repr (JStr s) = repr_str s"
| "py_repr (JArr xs) = ''['' @ py_join '', '' (map py_repr xs) @ '']''"
| "py_repr (JObj kvs) =
     ''{'' @ py_join '', '' (map (\<lambda>kv. repr_str (fst kv) @ '': '' @ snd kv) (map (map_prod id py_repr) kvs))
       @ ''}''"

fun py_str :: "json \<Rightarrow> string" where
  "py_str (JStr s) = s"
| "py_str v = py_repr v"

subsection \<open>Attribute and item access on a loaded value\<close>

text \<open>\<^verbatim>\<open>d.get(key, default)\<close>: only a dictionary has the method.\<close>

fun py_get :: "json \<Rightarrow> string \<Rightarrow> json \<Rightarrow> py_error + json" where
  "py_get (JObj kvs) k d = Inr (case map_of kvs k of None \<Rightarrow> d | Some v \<Rightarrow> v)"
| "py_get _ k d = Inl AttributeError"

text \<open>\<^verbatim>\<open>v.lower()\<close>: only a string has the method.\<close>

fun str_lower :: "json \<Rightarrow> py_error + string" where
  "str_lower (JStr s) = Inr (py_lower s)"
| "str_lower _ = Inl AttributeError"

text \<open>
  \<^verbatim>\<open>v <= n\<close> for an integer \<^verbatim>\<open>n\<close>: integers compare, \<^verbatim>\<open>True\<close> and \<^verbatim>\<open>False\<close> count as
  1 and 0, every other value raises \<^verbatim>\<open>TypeError\<close>.
\<close>

fun py_le :: "json \<Rightarrow> int \<Rightarrow> py_error + bool" where
  "py_le (JInt i) n = Inr (i \<le> n)"
| "py_le (JBool b) n = Inr ((if b then 1 else 0) \<le> n)"
| "py_le _ n = Inl TypeError"

section \<open>The classifier \<^verbatim>\<open>should_remove\<close>\<close>

definition CALORIE_THRESHOLD :: int where
  "CALORIE_THRESHOLD = 100"

definition kids_patterns :: "string list" where
  "kids_patterns = [''kid's'', ''kids'', ''kid '', ''children'', ''kiddie'']"

text \<open>
  The loop over the patterns: the first pattern found in the name or in the category
  returns from \<^verbatim>\<open>should_remove\<close>; \<open>None\<close> is the loop running to its end.
\<close>

fun kids_loop :: "string list \<Rightarrow> string \<Rightarrow> string \<Rightarrow> json \<Rightarrow> (bool \<times> string) option" where
  "kids_loop [] name category calories = None"
| "kids_loop (pattern # rest) name category calories =
     (if py_in pattern name \<or> py_in pattern category
      then Some (True, ''kids_item (cal='' @ py_str calories @ '')'')
      else kids_loop rest name category calories)"

text \<open>
  The three reads at the head of \<^verbatim>\<open>should_remove\<close>:
  \<^verbatim>\<open>item.get(key, '').lower()\<close> for the name and the category, and
  \<^verbatim>\<open>item.get('macros', {}).get('calories', 999)\<close>.
\<close>

definition get_lower :: "json \<Rightarrow> string \<Rightarrow> py_error + string" where
  "get_lower item k =
     (case py_get item k (JStr []) of Inl e \<Rightarrow> Inl e | Inr v \<Rightarrow> str_lower v)"

definition get_calories :: "json \<Rightarrow> py_error + json" where
  "get_calories item =
     (case py_get item ''macros'' (JObj []) of
        Inl e \<Rightarrow> Inl e
      | Inr macros \<Rightarrow> py_get macros ''calories'' (JInt 999))"

definition should_remove :: "json \<Rightarrow> py_error + bool \<times> string" where
  "should_remove item =
     (case get_lower item ''name'' of Inl e \<Rightarrow> Inl e | Inr name \<Rightarrow>
     (case get_lower item ''category'' of Inl e \<Rightarrow> Inl e | Inr category \<Rightarrow>
     (case get_calories item of Inl e \<Rightarrow> Inl e | Inr calories \<Rightarrow>
     (case kids_loop kids_patterns name category calories of
        Some r \<Rightarrow> Inr r
      | None \<Rightarrow>
          (case py_le calories CALORIE_THRESHOLD of
             Inl e \<Rightarrow> Inl e
           | Inr low \<Rightarrow>
               if low then Inr (True, ''low_cal ('' @ py_str calories @ '' cal)'')
               else Inr (False, []))))))"

section \<open>Files and paths\<close>

text \<open>
  A file holds either text that \<^verbatim>\<open>json.load\<close> parses to a value, or other text, on
  which \<^verbatim>\<open>json.load\<close> raises. \<^verbatim>\<open>json.dump\<close> of a value writes a file that parses to
  that value. The disk is an association list from paths to contents; the first entry
  of a path is the file, and \<^verbatim>\<open>open\<close> raises on a path without an entry.
\<close>

datatype content = Json json | Text string

type_synonym store = "(string \<times> content) list"

definition json_load :: "store \<Rightarrow> string \<Rightarrow> py_error + json" where
  "json_load st filepath =
     (case map_of st filepath of
        None \<Rightarrow> Inl FileNotFoundError
      | Some (Text t) \<Rightarrow> Inl JSONDecodeError
      | Some (Json v) \<Rightarrow> Inr v)"

text \<open>\<^verbatim>\<open>os.path.join\<close> and \<^verbatim>\<open>os.path.basename\<close> on POSIX paths, for a relative second part.\<close>

definition path_join :: "string \<Rightarrow> string \<Rightarrow> string" where
  "path_join a b = (if a = [] \<or> last a = CHR ''/'' then a @ b else a @ ''/'' @ b)"

definition basename :: "string \<Rightarrow> string" where
  "basename p = rev (takeWhile (\<lambda>c. c \<noteq> CHR ''/'') (rev p))"

text \<open>
  \<open>root\<close> is the directory two levels above the script,
  \<^verbatim>\<open>os.path.dirname(os.path.dirname(os.path.abspath(__file__)))\<close>.
\<close>

definition DATA_DIR :: "string \<Rightarrow> string" where
  "DATA_DIR root = path_join (path_join root ''data'') ''jsons''"

definition sql_file :: "string \<Rightarrow> string" where
  "sql_file root = path_join root ''cleanup_menu_items.sql''"

text \<open>
  \<^verbatim>\<open>sorted(glob.glob(os.path.join(DATA_DIR, '*_raw.json')))\<close>: the paths of the entries of
  \<^verbatim>\<open>DATA_DIR\<close> whose name ends in \<^verbatim>\<open>_raw.json\<close> and does not start with a dot, each
  once, in the order of their code points. The directory's own path is taken to hold
  no glob metacharacter.
\<close>

definition glob_match :: "string \<Rightarrow> string \<Rightarrow> bool" where
  "glob_match root p =
     (let d = path_join (DATA_DIR root) []; entry = drop (length d) p
      in prefix d p \<and> CHR ''/'' \<notin> set entry \<and> \<not> prefix ''.'' entry \<and> suffix ''_raw.json'' entry)"

definition glob_files :: "string \<Rightarrow> store \<Rightarrow> string list" where
  "glob_files root st = sort (remdups (filter (glob_match root) (map fst st)))"

section \<open>\<^verbatim>\<open>process_files\<close>\<close>

subsection \<open>The loop over the items of one file\<close>

text \<open>
  \<^verbatim>\<open>len(v)\<close> and \<^verbatim>\<open>for item in v\<close>: a list gives its elements, a dictionary its keys,
  a string its characters; nothing else has a length.
\<close>

fun py_iter :: "json \<Rightarrow> py_error + json list" where
  "py_iter (JArr xs) = Inr xs"
| "py_iter (JObj kvs) = Inr (map (\<lambda>kv. JStr (fst kv)) kvs)"
| "py_iter (JStr s) = Inr (map (\<lambda>c. JStr [c]) s)"
| "py_iter _ = Inl TypeError"

text \<open>\<^verbatim>\<open>v[key]\<close> for a string key: a dictionary without the key raises \<^verbatim>\<open>KeyError\<close>.\<close>

fun py_getitem :: "json \<Rightarrow> string \<Rightarrow> py_error + json" where
  "py_getitem (JObj kvs) k = (case map_of kvs k of None \<Rightarrow> Inl (KeyError k) | Some v \<Rightarrow> Inr v)"
| "py_getitem _ k = Inl TypeError"

text \<open>An entry of \<^verbatim>\<open>all_removed_items\<close>: the keys \<^verbatim>\<open>restaurant_name\<close>, \<^verbatim>\<open>name\<close>, \<^verbatim>\<open>reason\<close>.\<close>

record removal =
  rm_restaurant_name :: json
  rm_name :: json
  rm_reason :: string

text \<open>
  The loop of lines 66 to 76, with its three lists as accumulators: it returns
  \<^verbatim>\<open>kept\<close>, \<^verbatim>\<open>removed\<close> and \<^verbatim>\<open>all_removed_items\<close>, or the exception that ends the run.
\<close>

fun items_loop ::
  "json \<Rightarrow> json list \<Rightarrow> json list \<Rightarrow> (json \<times> string) list \<Rightarrow> removal list
    \<Rightarrow> py_error + json list \<times> (json \<times> string) list \<times> removal list" where
  "items_loop restaurant [] kept removed all_removed_items =
     Inr (kept, removed, all_removed_items)"
| "items_loop restaurant (item # items) kept removed all_removed_items =
     (case should_remove item of
        Inl e \<Rightarrow> Inl e
      | Inr (remove, reason) \<Rightarrow>
          if remove then
            (case py_getitem item ''name'' of
               Inl e \<Rightarrow> Inl e
             | Inr item_name \<Rightarrow>
                 items_loop restaurant items kept (removed @ [(item, reason)])
                   (all_removed_items @
                     [\<lparr>rm_restaurant_name = restaurant, rm_name = item_name, rm_reason = reason\<rparr>]))
          else items_loop restaurant items (kept @ [item]) removed all_removed_items)"

subsection \<open>One file\<close>

record totals =
  disk :: store
  total_removed :: nat
  total_kept :: nat
  all_removed_items :: "removal list"

text \<open>
  The body of the loop over the files (lines 56 to 92). The assignment
  \<^verbatim>\<open>data['items'] = kept\<close> and the write happen only with \<^verbatim>\<open>--apply\<close> and a non-empty
  \<^verbatim>\<open>removed\<close>.
\<close>

fun py_setitem :: "json \<Rightarrow> string \<Rightarrow> json \<Rightarrow> py_error + json" where
  "py_setitem (JObj kvs) k v = Inr (JObj (AList.update k v kvs))"
| "py_setitem _ k v = Inl TypeError"

definition process_file :: "bool \<Rightarrow> string \<Rightarrow> totals \<Rightarrow> py_error + totals" where
  "process_file APPLY filepath s =
     (case json_load (disk s) filepath of Inl e \<Rightarrow> Inl e | Inr data \<Rightarrow>
     (case py_get data ''restaurant_name'' (JStr (basename filepath)) of
        Inl e \<Rightarrow> Inl e | Inr restaurant \<Rightarrow>
     (case py_get data ''items'' (JArr []) of Inl e \<Rightarrow> Inl e | Inr items \<Rightarrow>
     (case py_iter items of Inl e \<Rightarrow> Inl e | Inr item_list \<Rightarrow>
     (case items_loop restaurant item_list [] [] (all_removed_items s) of
        Inl e \<Rightarrow> Inl e
      | Inr (kept, removed, all_removed) \<Rightarrow>
          (let s' = s\<lparr>total_removed := total_removed s + length removed,
                      total_kept := total_kept s + length kept,
                      all_removed_items := all_removed\<rparr>
           in if APPLY \<and> removed \<noteq> [] then
                (case py_setitem data ''items'' (JArr kept) of
                   Inl e \<Rightarrow> Inl e
                 | Inr data' \<Rightarrow> Inr (s'\<lparr>disk := AList.update filepath (Json data') (disk s)\<rparr>))
              else Inr s'))))))"

text \<open>
  The loop over the files. An exception ends the run; the disk is then as the files
  before the failing one left it.
\<close>

fun files_loop :: "bool \<Rightarrow> string list \<Rightarrow> totals \<Rightarrow> totals \<times> py_error option" where
  "files_loop APPLY [] s = (s, None)"
| "files_loop APPLY (filepath # files) s =
     (case process_file APPLY filepath s of
        Inl e \<Rightarrow> (s, Some e)
      | Inr s' \<Rightarrow> files_loop APPLY files s')"

subsection \<open>The SQL\<close>

text \<open>\<^verbatim>\<open>v.replace(old, new)\<close>: only a string has the method.\<close>

fun str_replace :: "json \<Rightarrow> string \<Rightarrow> string \<Rightarrow> py_error + string" where
  "str_replace (JStr s) old new = Inr (py_replace old new s)"
| "str_replace _ old new = Inl AttributeError"

definition quote :: string where
  "quote = [CHR 0x27]"

text \<open>
  The loop that builds \<^verbatim>\<open>conditions\<close> (lines 118 to 121, and again 148 to 151): the
  name is escaped first, then the restaurant.
\<close>

fun conditions_loop :: "removal list \<Rightarrow> string list \<Rightarrow> py_error + string list" where
  "conditions_loop [] conditions = Inr conditions"
| "conditions_loop (item # kids_items) conditions =
     (case str_replace (rm_name item) quote (quote @ quote) of
        Inl e \<Rightarrow> Inl e
      | Inr escaped_name \<Rightarrow>
     (case str_replace (rm_restaurant_name item) quote (quote @ quote) of
        Inl e \<Rightarrow> Inl e
      | Inr escaped_restaurant \<Rightarrow>
          conditions_loop kids_items
            (conditions @
              [''  (restaurant_name = '' @ quote @ escaped_restaurant @ quote @
               '' AND name = '' @ quote @ escaped_name @ quote @ '')''])))"

text \<open>\<^verbatim>\<open>print(line)\<close> writes the line and a newline.\<close>

definition prints :: "string list \<Rightarrow> string" where
  "prints ls = concat (map (\<lambda>l. l @ ''\<newline>'') ls)"

definition kids_items_of :: "removal list \<Rightarrow> removal list" where
  "kids_items_of all_removed = filter (\<lambda>i. py_in ''kids_item'' (rm_reason i)) all_removed"

text \<open>
  What lines 113 to 135 print: the text so far, and the exception if one ended it.
\<close>

definition print_sql :: "removal list \<Rightarrow> string \<times> py_error option" where
  "print_sql kids_items =
     (let rest =
        prints
          [[],
           ''-- Delete low calorie / single ingredient items (<=100 cal)'',
           ''DELETE FROM menu_items'',
           ''WHERE (macros->>'calories')::int <= '' @ str_int CALORIE_THRESHOLD @ '';'',
           [],
           ''-- Verify: Count remaining items'',
           ''SELECT COUNT(*) as remaining_items FROM menu_items;'',
           []]
      in if kids_items \<noteq> [] then
           (case conditions_loop kids_items [] of
              Inl e \<Rightarrow>
                (prints [''-- Delete kids menu items'', ''DELETE FROM menu_items WHERE''], Some e)
            | Inr conditions \<Rightarrow>
                (prints [''-- Delete kids menu items'', ''DELETE FROM menu_items WHERE'',
                         py_join '' OR\<newline>'' conditions, '';''] @ rest, None))
         else (prints [''-- Delete kids menu items'', ''-- No kids items found''] @ rest, None))"

text \<open>
  What lines 140 to 160 write to \<^verbatim>\<open>cleanup_menu_items.sql\<close>: the text so far, and the
  exception if one ended it.
\<close>

definition write_sql :: "removal list \<Rightarrow> nat \<Rightarrow> string \<times> py_error option" where
  "write_sql kids_items removed_count =
     (let head =
        ''-- AUTO-GENERATED: Cleanup script for menu_items table\<newline>'' @
        ''-- Generated by clean-menu-data.py\<newline>'' @
        ''-- Items to remove: '' @ str_nat removed_count @ ''\<newline>\<newline>'' @
        ''-- Step 1: Delete kids menu items by name\<newline>'';
          rest =
        ''-- Step 2: Delete all items with calories <= '' @ str_int CALORIE_THRESHOLD @ ''\<newline>'' @
        ''DELETE FROM menu_items\<newline>'' @
        ''WHERE (macros->>'calories')::int <= '' @ str_int CALORIE_THRESHOLD @ '';\<newline>\<newline>'' @
        ''-- Step 3: Verify remaining count\<newline>'' @
        ''SELECT COUNT(*) as remaining_items FROM menu_items;\<newline>''
      in if kids_items \<noteq> [] then
           (case conditions_loop kids_items [] of
              Inl e \<Rightarrow> (head @ ''DELETE FROM menu_items WHERE\<newline>'', Some e)
            | Inr conditions \<Rightarrow>
                (head @ ''DELETE FROM menu_items WHERE\<newline>'' @
                 py_join '' OR\<newline>'' conditions @ '';\<newline>\<newline>'' @ rest, None))
         else (head @ rest, None))"

subsection \<open>The whole run\<close>

text \<open>
  The outcome of a run: the disk, the totals of the summary (lines 97 and 98), the SQL
  printed by lines 113 to 135, and the exception that ended the run, if any. The progress
  report of the other \<^verbatim>\<open>print\<close> calls is left out: it reaches the console only.
\<close>

record run =
  files :: store
  removed_total :: nat
  kept_total :: nat
  printed_sql :: string
  raised :: "py_error option"

definition process_files :: "bool \<Rightarrow> string \<Rightarrow> store \<Rightarrow> run" where
  "process_files APPLY root disk0 =
     (case files_loop APPLY (glob_files root disk0)
             \<lparr>disk = disk0, total_removed = 0, total_kept = 0, all_removed_items = []\<rparr> of
        (s, Some e) \<Rightarrow>
          \<lparr>files = disk s, removed_total = total_removed s, kept_total = total_kept s,
           printed_sql = [], raised = Some e\<rparr>
      | (s, None) \<Rightarrow>
          (let kids_items = kids_items_of (all_removed_items s)
           in case print_sql kids_items of
                (out, Some e) \<Rightarrow>
                  \<lparr>files = disk s, removed_total = total_removed s, kept_total = total_kept s,
                   printed_sql = out, raised = Some e\<rparr>
              | (out, None) \<Rightarrow>
                  (case write_sql kids_items (total_removed s) of
                     (text, r) \<Rightarrow>
                       \<lparr>files = AList.update (sql_file root) (Text text) (disk s),
                        removed_total = total_removed s, kept_total = total_kept s,
                        printed_sql = out, raised = r\<rparr>)))"

section \<open>The specification's notions\<close>

text \<open>
  A kids item, in the specification's words: one of the fixed patterns is a substring
  (\<^const>\<open>sublist\<close>) of the lower-cased name or of the lower-cased category.
\<close>

definition kids_match :: "string \<Rightarrow> string \<Rightarrow> bool" where
  "kids_match name category =
     (\<exists>pattern \<in> set kids_patterns. sublist pattern name \<or> sublist pattern category)"

text \<open>
  The classifier with its two rules in the other order (the calorie rule first), to
  compare the outcomes with those of \<^const>\<open>should_remove\<close>.
\<close>

definition should_remove_low_cal_first :: "json \<Rightarrow> py_error + bool \<times> string" where
  "should_remove_low_cal_first item =
     (case get_lower item ''name'' of Inl e \<Rightarrow> Inl e | Inr name \<Rightarrow>
     (case get_lower item ''category'' of Inl e \<Rightarrow> Inl e | Inr category \<Rightarrow>
     (case get_calories item of Inl e \<Rightarrow> Inl e | Inr calories \<Rightarrow>
     (case py_le calories CALORIE_THRESHOLD of
        Inl e \<Rightarrow> Inl e
      | Inr low \<Rightarrow>
          if low then Inr (True, ''low_cal ('' @ py_str calories @ '' cal)'')
          else (case kids_loop kids_patterns name category calories of
                  Some r \<Rightarrow> Inr r
                | None \<Rightarrow> Inr (False, []))))))"

text \<open>An item the classifier keeps, and one it removes.\<close>

definition classified_keep :: "json \<Rightarrow> bool" where
  "classified_keep item =
     (case should_remove item of Inl e \<Rightarrow> False | Inr (remove, reason) \<Rightarrow> \<not> remove)"

definition classified_remove :: "json \<Rightarrow> bool" where
  "classified_remove item =
     (case should_remove item of Inl e \<Rightarrow> False | Inr (remove, reason) \<Rightarrow> remove)"

text \<open>
  The item list of a loaded menu file, as the script reads it:
  \<^verbatim>\<open>data.get('items', [])\<close>, iterated.
\<close>

definition file_items :: "json \<Rightarrow> py_error + json list" where
  "file_items data =
     (case py_get data ''items'' (JArr []) of Inl e \<Rightarrow> Inl e | Inr items \<Rightarrow> py_iter items)"

definition menu_items :: "store \<Rightarrow> string \<Rightarrow> py_error + json list" where
  "menu_items st filepath =
     (case json_load st filepath of Inl e \<Rightarrow> Inl e | Inr data \<Rightarrow> file_items data)"

text \<open>
  Escaping in the specification's words: every single quote is doubled, every other
  character stays.
\<close>

definition double_quotes :: "string \<Rightarrow> string" where
  "double_quotes s = concat (map (\<lambda>c. if c = CHR 0x27 then [c, c] else [c]) s)"

section \<open>The specification's notions of the SQL\<close>

text \<open>
  The condition of one kids item in the first \<^verbatim>\<open>DELETE\<close>: the restaurant and the item
  name between single quotes, each with its single quotes doubled.
\<close>

definition condition_text :: "string \<Rightarrow> string \<Rightarrow> string" where
  "condition_text restaurant item_name =
     ''  (restaurant_name = '' @ quote @ double_quotes restaurant @ quote @
     '' AND name = '' @ quote @ double_quotes item_name @ quote @ '')''"

text \<open>
  The removal record of an item of a file, and the items removed under rule 1: those
  whose lower-cased name or category matches a kids pattern.
\<close>

definition removal_record :: "json \<Rightarrow> json \<Rightarrow> removal" where
  "removal_record restaurant item =
     \<lparr>rm_restaurant_name = restaurant,
      rm_name = (case py_getitem item ''name'' of Inl e \<Rightarrow> JNull | Inr v \<Rightarrow> v),
      rm_reason = (case should_remove item of Inl e \<Rightarrow> [] | Inr (remove, reason) \<Rightarrow> reason)\<rparr>"

definition is_kids_item :: "json \<Rightarrow> bool" where
  "is_kids_item item =
     (case get_lower item ''name'' of Inl e \<Rightarrow> False | Inr name \<Rightarrow>
     (case get_lower item ''category'' of Inl e \<Rightarrow> False | Inr category \<Rightarrow>
        kids_match name category))"

text \<open>
  The removal records of a menu file, for the removed items that satisfy \<open>which\<close>, in
  the order of the items; a file that cannot be read as a menu has none.
\<close>

definition file_removals :: "(json \<Rightarrow> bool) \<Rightarrow> store \<Rightarrow> string \<Rightarrow> removal list" where
  "file_removals which st filepath =
     (case json_load st filepath of Inl e \<Rightarrow> [] | Inr data \<Rightarrow>
     (case py_get data ''restaurant_name'' (JStr (basename filepath)) of Inl e \<Rightarrow> [] | Inr restaurant \<Rightarrow>
     (case file_items data of Inl e \<Rightarrow> [] | Inr items \<Rightarrow>
        map (removal_record restaurant) (filter which (filter classified_remove items)))))"

text \<open>The three statements, and the text of the SQL file after a run.\<close>

definition kids_delete :: "string list \<Rightarrow> string" where
  "kids_delete conditions = ''DELETE FROM menu_items WHERE\<newline>'' @ py_join '' OR\<newline>'' conditions"

definition threshold_delete :: string where
  "threshold_delete = ''DELETE FROM menu_items\<newline>WHERE (macros->>'calories')::int <= 100;''"

definition verify_select :: string where
  "verify_select = ''SELECT COUNT(*) as remaining_items FROM menu_items;''"

definition written_sql :: "string \<Rightarrow> run \<Rightarrow> string" where
  "written_sql root r = (case map_of (files r) (sql_file root) of Some (Text sql) \<Rightarrow> sql | _ \<Rightarrow> [])"

section \<open>Example inputs\<close>

text \<open>A repository at \<^verbatim>\<open>/repo\<close> with one menu file: the three items of the specification's examples.\<close>

definition menu_a :: store where
  "menu_a =
     [(''/repo/data/jsons/joes_raw.json'',
       Json (JObj [(''restaurant_name'', JStr ''Joe's''),
                   (''items'', JArr
                      [JObj [(''name'', JStr ''Kid's Burger''), (''macros'', JObj [(''calories'', JInt 350)])],
                       JObj [(''name'', JStr ''Side of Fries''), (''macros'', JObj [(''calories'', JInt 80)])],
                       JObj [(''name'', JStr ''Grilled Chicken Bowl''),
                             (''macros'', JObj [(''calories'', JInt 620)])]])]))]"

text \<open>The same repository, the second item of its menu file having calories but no name.\<close>

definition menu_noname :: store where
  "menu_noname =
     [(''/repo/data/jsons/joes_raw.json'',
       Json (JObj [(''restaurant_name'', JStr ''Joe's''),
                   (''items'', JArr
                      [JObj [(''name'', JStr ''Grilled Chicken Bowl''),
                             (''macros'', JObj [(''calories'', JInt 620)])],
                       JObj [(''macros'', JObj [(''calories'', JInt 50)])]])]))]"

text \<open>
  A repository with two menu files: the first holds the three items, the second is not
  JSON.
\<close>

definition menu_broken :: store where
  "menu_broken =
     [(''/repo/data/jsons/a_raw.json'',
       Json (JObj [(''restaurant_name'', JStr ''Joe's''),
                   (''items'', JArr
                      [JObj [(''name'', JStr ''Kid's Burger''), (''macros'', JObj [(''calories'', JInt 350)])],
                       JObj [(''name'', JStr ''Side of Fries''), (''macros'', JObj [(''calories'', JInt 80)])],
                       JObj [(''name'', JStr ''Grilled Chicken Bowl''),
                             (''macros'', JObj [(''calories'', JInt 620)])]])])),
      (''/repo/data/jsons/b_raw.json'', Text ''not json'')]"

section \<open>Properties of the classifier\<close>

subsection \<open>The built-ins against their meaning\<close>

text \<open>\<^const>\<open>py_in\<close> is the substring test.\<close>

lemma py_in_sublist: "py_in pat s = sublist pat s"
  by (induction s) (simp_all add: sublist_Cons_right)

text \<open>The loop over the patterns returns exactly when some pattern matches.\<close>

lemma kids_loop_eq:
  "kids_loop ps name category calories =
     (if \<exists>p \<in> set ps. py_in p name \<or> py_in p category
      then Some (True, ''kids_item (cal='' @ py_str calories @ '')'') else None)"
  by (induction ps) auto

lemma kids_loop_patterns:
  "kids_loop kids_patterns name category calories =
     (if kids_match name category
      then Some (True, ''kids_item (cal='' @ py_str calories @ '')'') else None)"
  by (simp only: kids_loop_eq kids_match_def py_in_sublist)

text \<open>
  When the reads succeed: the item is a dictionary; its name and category are absent
  (read as the empty string) or strings; its macro block is absent or a dictionary, and
  a missing calorie value reads as 999.
\<close>

lemma get_lower_cases:
  "get_lower item k = Inr s \<longleftrightarrow>
     (\<exists>kvs. item = JObj kvs \<and>
        ((map_of kvs k = None \<and> s = []) \<or> (\<exists>t. map_of kvs k = Some (JStr t) \<and> s = py_lower t)))"
proof (cases item)
  case (JObj kvs)
  show ?thesis
  proof (cases "map_of kvs k")
    case None
    with JObj show ?thesis by (auto simp: get_lower_def py_lower_def)
  next
    case (Some v)
    with JObj show ?thesis by (cases v) (auto simp: get_lower_def)
  qed
qed (simp_all add: get_lower_def)

lemma get_calories_cases:
  "get_calories item = Inr c \<longleftrightarrow>
     (\<exists>kvs. item = JObj kvs \<and>
        ((map_of kvs ''macros'' = None \<and> c = JInt 999) \<or>
         (\<exists>m. map_of kvs ''macros'' = Some (JObj m) \<and>
              (case map_of m ''calories'' of None \<Rightarrow> c = JInt 999 | Some v \<Rightarrow> c = v))))"
proof (cases item)
  case (JObj kvs)
  show ?thesis
  proof (cases "map_of kvs ''macros''")
    case None
    with JObj show ?thesis by (auto simp: get_calories_def)
  next
    case (Some v)
    with JObj show ?thesis by (cases v) (auto simp: get_calories_def split: option.splits)
  qed
qed (simp_all add: get_calories_def)

subsection \<open>Rule 1\<close>

text \<open>
  C1. For every item whose name and category are strings where present, and whose macro
  block is a dictionary where present: if one of the kids patterns is a substring of the
  lower-cased name or of the lower-cased category, \<^const>\<open>should_remove\<close> returns
  \<open>True\<close> with the reason \<^verbatim>\<open>kids_item (cal=<calories>)\<close>, the field being the calorie
  value as an f-string formats it (999 when the value is absent).
\<close>

theorem kids_item_removed:
  assumes "get_lower item ''name'' = Inr name"
    and "get_lower item ''category'' = Inr category"
    and "get_calories item = Inr calories"
    and "kids_match name category"
  shows "should_remove item = Inr (True, ''kids_item (cal='' @ py_str calories @ '')'')"
  using assms by (simp add: should_remove_def kids_loop_patterns)

theorem kids_item_removed_witness:
  "get_lower (JObj [(''name'', JStr ''Kid's Burger''), (''macros'', JObj [(''calories'', JInt 350)])]) ''name''
     = Inr ''kid's burger'' \<and>
   get_lower (JObj [(''name'', JStr ''Kid's Burger''), (''macros'', JObj [(''calories'', JInt 350)])]) ''category''
     = Inr [] \<and>
   get_calories (JObj [(''name'', JStr ''Kid's Burger''), (''macros'', JObj [(''calories'', JInt 350)])])
     = Inr (JInt 350) \<and>
   kids_match ''kid's burger'' [] \<and>
   should_remove (JObj [(''name'', JStr ''Kid's Burger''), (''macros'', JObj [(''calories'', JInt 350)])])
     = Inr (True, ''kids_item (cal=350)'')"
proof -
  let ?item = "JObj [(''name'', JStr ''Kid's Burger''), (''macros'', JObj [(''calories'', JInt 350)])]"
  have n: "get_lower ?item ''name'' = Inr ''kid's burger''" by code_simp
  have c: "get_lower ?item ''category'' = Inr []" by code_simp
  have m: "get_calories ?item = Inr (JInt 350)" by code_simp
  have k: "kids_match ''kid's burger'' []"
    unfolding kids_match_def kids_patterns_def by (simp add: sublist_Cons_right)
  have s: "py_str (JInt 350) = ''350''" by code_simp
  from kids_item_removed [OF n c m k] n c m k s show ?thesis by simp
qed


subsection \<open>Rule 2\<close>

text \<open>
  C2. For every such item that matches no kids pattern and whose calorie value is an
  integer of at most 100, \<^const>\<open>should_remove\<close> returns \<open>True\<close> with the reason
  \<^verbatim>\<open>low_cal (<calories> cal)\<close>.
\<close>

theorem low_cal_removed:
  assumes "get_lower item ''name'' = Inr name"
    and "get_lower item ''category'' = Inr category"
    and "get_calories item = Inr (JInt n)"
    and "\<not> kids_match name category"
    and "n \<le> 100"
  shows "should_remove item = Inr (True, ''low_cal ('' @ str_int n @ '' cal)'')"
  using assms by (simp add: should_remove_def kids_loop_patterns CALORIE_THRESHOLD_def)

theorem low_cal_removed_witness:
  "get_lower (JObj [(''name'', JStr ''Side of Fries''), (''macros'', JObj [(''calories'', JInt 80)])]) ''name''
     = Inr ''side of fries'' \<and>
   get_lower (JObj [(''name'', JStr ''Side of Fries''), (''macros'', JObj [(''calories'', JInt 80)])]) ''category''
     = Inr [] \<and>
   get_calories (JObj [(''name'', JStr ''Side of Fries''), (''macros'', JObj [(''calories'', JInt 80)])])
     = Inr (JInt 80) \<and>
   \<not> kids_match ''side of fries'' [] \<and> (80 :: int) \<le> 100 \<and>
   should_remove (JObj [(''name'', JStr ''Side of Fries''), (''macros'', JObj [(''calories'', JInt 80)])])
     = Inr (True, ''low_cal (80 cal)'')"
proof -
  let ?item = "JObj [(''name'', JStr ''Side of Fries''), (''macros'', JObj [(''calories'', JInt 80)])]"
  have n: "get_lower ?item ''name'' = Inr ''side of fries''" by code_simp
  have c: "get_lower ?item ''category'' = Inr []" by code_simp
  have m: "get_calories ?item = Inr (JInt 80)" by code_simp
  have k: "\<not> kids_match ''side of fries'' []"
    unfolding kids_match_def kids_patterns_def py_in_sublist [symmetric] by simp
  have l: "(80 :: int) \<le> 100" by simp
  have s: "str_int 80 = ''80''" by code_simp
  from low_cal_removed [OF n c m k l] n c m k s show ?thesis by simp
qed

subsection \<open>The decision\<close>

text \<open>
  C3. For every such item with an integer calorie value, the decision is the disjunction
  of the kids match and \<open>calories \<le> 100\<close>; an item with neither is kept, with the empty
  reason; and the classifier with the rules in the other order decides the same.
\<close>

theorem removal_is_disjunction:
  assumes "get_lower item ''name'' = Inr name"
    and "get_lower item ''category'' = Inr category"
    and "get_calories item = Inr (JInt n)"
  shows "map_sum id fst (should_remove item) = Inr (kids_match name category \<or> n \<le> 100) \<and>
         (\<not> kids_match name category \<and> \<not> n \<le> 100 \<longrightarrow> should_remove item = Inr (False, [])) \<and>
         map_sum id fst (should_remove_low_cal_first item) = map_sum id fst (should_remove item)"
  using assms
  by (simp add: should_remove_def should_remove_low_cal_first_def kids_loop_patterns
      CALORIE_THRESHOLD_def)

theorem removal_is_disjunction_witness:
  "get_lower (JObj [(''name'', JStr ''Grilled Chicken Bowl''), (''macros'', JObj [(''calories'', JInt 620)])])
     ''name'' = Inr ''grilled chicken bowl'' \<and>
   get_lower (JObj [(''name'', JStr ''Grilled Chicken Bowl''), (''macros'', JObj [(''calories'', JInt 620)])])
     ''category'' = Inr [] \<and>
   get_calories (JObj [(''name'', JStr ''Grilled Chicken Bowl''), (''macros'', JObj [(''calories'', JInt 620)])])
     = Inr (JInt 620) \<and>
   \<not> kids_match ''grilled chicken bowl'' [] \<and> \<not> (620 :: int) \<le> 100 \<and>
   should_remove (JObj [(''name'', JStr ''Grilled Chicken Bowl''), (''macros'', JObj [(''calories'', JInt 620)])])
     = Inr (False, []) \<and>
   should_remove_low_cal_first
     (JObj [(''name'', JStr ''Grilled Chicken Bowl''), (''macros'', JObj [(''calories'', JInt 620)])])
     = Inr (False, [])"
proof -
  let ?item = "JObj [(''name'', JStr ''Grilled Chicken Bowl''), (''macros'', JObj [(''calories'', JInt 620)])]"
  have n: "get_lower ?item ''name'' = Inr ''grilled chicken bowl''" by code_simp
  have c: "get_lower ?item ''category'' = Inr []" by code_simp
  have m: "get_calories ?item = Inr (JInt 620)" by code_simp
  have k: "\<not> kids_match ''grilled chicken bowl'' []"
    unfolding kids_match_def kids_patterns_def py_in_sublist [symmetric] by simp
  have l: "\<not> (620 :: int) \<le> 100" by simp
  have f: "should_remove_low_cal_first ?item = Inr (False, [])" by code_simp
  from removal_is_disjunction [OF n c m] n c m k l f show ?thesis by simp
qed

subsection \<open>The default of the calorie value\<close>

text \<open>
  C4. For every item without a macro block, or with a macro block without a calorie
  value, the calorie value read is 999, above the threshold; the classifier then raises
  on an ill-typed name or category, removes the item as a kids item, or keeps it, and
  never gives a \<^verbatim>\<open>low_cal\<close> reason.
\<close>

theorem missing_calories_never_low_cal:
  assumes "item = JObj kvs"
    and "map_of kvs ''macros'' = None \<or>
         (\<exists>m. map_of kvs ''macros'' = Some (JObj m) \<and> map_of m ''calories'' = None)"
  shows "get_calories item = Inr (JInt 999) \<and> CALORIE_THRESHOLD < 999 \<and>
         (should_remove item = Inl AttributeError \<or>
          should_remove item = Inr (True, ''kids_item (cal=999)'') \<or>
          should_remove item = Inr (False, [])) \<and>
         (\<forall>remove reason. should_remove item = Inr (remove, reason) \<longrightarrow> \<not> prefix ''low_cal'' reason)"
proof -
  have s: "py_str (JInt 999) = ''999''" by code_simp
  have c: "get_calories item = Inr (JInt 999)"
    using assms by (auto simp: get_calories_def)
  have e: "get_lower item k = Inl AttributeError \<or> (\<exists>t. get_lower item k = Inr t)" for k
    using assms(1) by (cases "get_lower item k") (auto simp: get_lower_def elim: str_lower.elims)
  have t: "should_remove item = Inl AttributeError \<or>
          should_remove item = Inr (True, ''kids_item (cal=999)'') \<or>
          should_remove item = Inr (False, [])"
  proof (cases "get_lower item ''name''")
    case (Inl x)
    with e [of "''name''"] show ?thesis by (simp add: should_remove_def)
  next
    case name: (Inr name)
    show ?thesis
    proof (cases "get_lower item ''category''")
      case (Inl x)
      with e [of "''category''"] name show ?thesis by (simp add: should_remove_def)
    next
      case category: (Inr category)
      show ?thesis
        using name category c s
        by (cases "kids_match name category")
          (simp_all add: should_remove_def kids_loop_patterns CALORIE_THRESHOLD_def)
    qed
  qed
  from t have "\<not> prefix ''low_cal'' reason" if "should_remove item = Inr (remove, reason)"
    for remove reason using that by auto
  with c t show ?thesis by (simp add: CALORIE_THRESHOLD_def)
qed

theorem missing_calories_never_low_cal_witness:
  "map_of [(''name'', JStr ''Kids Meal''), (''macros'', JObj [])] ''macros'' = Some (JObj []) \<and>
   map_of ([] :: (string \<times> json) list) ''calories'' = None \<and>
   get_calories (JObj [(''name'', JStr ''Kids Meal''), (''macros'', JObj [])]) = Inr (JInt 999) \<and>
   should_remove (JObj [(''name'', JStr ''Kids Meal''), (''macros'', JObj [])])
     = Inr (True, ''kids_item (cal=999)'') \<and>
   \<not> prefix ''low_cal'' ''kids_item (cal=999)''"
proof -
  let ?kvs = "[(''name'', JStr ''Kids Meal''), (''macros'', JObj [])]"
  have a: "map_of ?kvs ''macros'' = Some (JObj [])" by simp
  have b: "map_of ([] :: (string \<times> json) list) ''calories'' = None" by simp
  have h: "map_of ?kvs ''macros'' = None \<or>
         (\<exists>m. map_of ?kvs ''macros'' = Some (JObj m) \<and> map_of m ''calories'' = None)"
    using a b by simp
  have r: "should_remove (JObj ?kvs) = Inr (True, ''kids_item (cal=999)'')" by code_simp
  from missing_calories_never_low_cal [OF refl h] a b r show ?thesis by simp
qed

section \<open>Properties of the run\<close>

subsection \<open>The loop over the items\<close>

text \<open>\<^verbatim>\<open>replace("'", "''")\<close> doubles every single quote and changes nothing else.\<close>

lemma py_replace_quote: "py_replace quote (quote @ quote) s = double_quotes s"
  by (induction s) (auto simp: quote_def double_quotes_def)

text \<open>The three outcomes of the classifier.\<close>

lemma should_remove_cases:
  obtains (err) e where "should_remove item = Inl e"
  | (keep) reason where "should_remove item = Inr (False, reason)"
  | (remove) reason where "should_remove item = Inr (True, reason)"
proof (cases "should_remove item")
  case (Inl e)
  then show thesis by (rule err)
next
  case (Inr r)
  obtain remove reason where "r = (remove, reason)" by (cases r)
  with Inr keep remove show thesis by (cases remove) auto
qed

lemma should_remove_keep_reason: "should_remove item = Inr (False, reason) \<Longrightarrow> reason = []"
  by (auto simp: should_remove_def kids_loop_eq split: sum.splits option.splits if_splits)

text \<open>
  A loop that ends without an exception has kept the items classified keep, in their
  order, and removed the others.
\<close>

lemma items_loop_result:
  "items_loop restaurant items kept removed all_removed = Inr (kept', removed', all_removed') \<Longrightarrow>
     kept' = kept @ filter classified_keep items \<and>
     map fst removed' = map fst removed @ filter classified_remove items \<and>
     length removed' = length removed + length (filter classified_remove items) \<and>
     (\<forall>item \<in> set items. classified_keep item \<or> classified_remove item)"
proof (induction items arbitrary: kept removed all_removed)
  case Nil
  then show ?case by simp
next
  case (Cons item items)
  show ?case
  proof (cases item rule: should_remove_cases)
    case (err e)
    with Cons.prems show ?thesis by simp
  next
    case (keep reason)
    with Cons.prems have "items_loop restaurant items (kept @ [item]) removed all_removed
        = Inr (kept', removed', all_removed')" by simp
    from Cons.IH [OF this] keep show ?thesis
      by (simp add: classified_keep_def classified_remove_def)
  next
    case (remove reason)
    with Cons.prems obtain item_name where
      "items_loop restaurant items kept (removed @ [(item, reason)])
         (all_removed @ [\<lparr>rm_restaurant_name = restaurant, rm_name = item_name, rm_reason = reason\<rparr>])
        = Inr (kept', removed', all_removed')"
      by (auto split: sum.splits)
    from Cons.IH [OF this] remove show ?thesis
      by (simp add: classified_keep_def classified_remove_def)
  qed
qed

lemma items_loop_all_keep:
  "\<forall>item \<in> set items. classified_keep item \<Longrightarrow>
     items_loop restaurant items kept removed all_removed = Inr (kept @ items, removed, all_removed)"
proof (induction items arbitrary: kept)
  case Nil
  then show ?case by simp
next
  case (Cons item items)
  then show ?case
    by (cases item rule: should_remove_cases) (simp_all add: classified_keep_def)
qed


subsection \<open>One file, and the loop over the files\<close>

lemma json_load_Inr: "json_load st p = Inr data \<longleftrightarrow> map_of st p = Some (Json data)"
  by (auto simp: json_load_def split: option.splits content.splits)

lemma py_get_Inr: "py_get data k d = Inr v \<Longrightarrow> \<exists>kvs. data = JObj kvs"
  by (cases data) simp_all

lemma process_file_Inr:
  assumes "process_file APPLY filepath s = Inr s'"
  obtains kvs items where
    "map_of (disk s) filepath = Some (Json (JObj kvs))"
    and "file_items (JObj kvs) = Inr items"
    and "\<forall>item \<in> set items. classified_keep item \<or> classified_remove item"
    and "total_removed s' = total_removed s + length (filter classified_remove items)"
    and "total_kept s' = total_kept s + length (filter classified_keep items)"
    and "disk s' =
          (if APPLY \<and> filter classified_remove items \<noteq> []
           then AList.update filepath
                  (Json (JObj (AList.update ''items'' (JArr (filter classified_keep items)) kvs)))
                  (disk s)
           else disk s)"
proof -
  from assms obtain data where load: "json_load (disk s) filepath = Inr data"
    by (auto simp: process_file_def split: sum.splits)
  from assms load obtain restaurant where
    rest: "py_get data ''restaurant_name'' (JStr (basename filepath)) = Inr restaurant"
    by (auto simp: process_file_def split: sum.splits)
  then obtain kvs where data: "data = JObj kvs" by (auto dest: py_get_Inr)
  from assms load rest obtain items_v where
    get: "py_get data ''items'' (JArr []) = Inr items_v"
    by (auto simp: process_file_def split: sum.splits)
  from assms load rest get obtain items where iter: "py_iter items_v = Inr items"
    by (auto simp: process_file_def split: sum.splits)
  from assms load rest get iter obtain kept removed all_removed where
    loop: "items_loop restaurant items [] [] (all_removed_items s) = Inr (kept, removed, all_removed)"
    by (auto simp: process_file_def split: sum.splits)
  note res = items_loop_result [OF loop]
  from res have kept: "kept = filter classified_keep items" by simp
  from res have len: "length removed = length (filter classified_remove items)" by simp
  then have empty: "removed = [] \<longleftrightarrow> filter classified_remove items = []"
    by (metis length_0_conv)
  have 1: "map_of (disk s) filepath = Some (Json (JObj kvs))"
    using load data by (simp add: json_load_Inr)
  have 2: "file_items (JObj kvs) = Inr items"
    using get iter data by (simp add: file_items_def)
  from assms load rest get iter loop data
  have 4: "total_removed s' = total_removed s + length (filter classified_remove items)"
    and 5: "total_kept s' = total_kept s + length (filter classified_keep items)"
    and 6: "disk s' =
          (if APPLY \<and> filter classified_remove items \<noteq> []
           then AList.update filepath
                  (Json (JObj (AList.update ''items'' (JArr (filter classified_keep items)) kvs)))
                  (disk s)
           else disk s)"
    by (auto simp: process_file_def Let_def kept len empty split: if_splits)
  from 1 2 res 4 5 6 show thesis by (intro that) simp_all
qed


lemma process_file_other:
  assumes "process_file APPLY filepath s = Inr s'" and "q \<noteq> filepath"
  shows "map_of (disk s') q = map_of (disk s) q"
  using assms(1)
proof (rule process_file_Inr)
  fix kvs items
  assume "disk s' =
          (if APPLY \<and> filter classified_remove items \<noteq> []
           then AList.update filepath
                  (Json (JObj (AList.update ''items'' (JArr (filter classified_keep items)) kvs)))
                  (disk s)
           else disk s)"
  with assms(2) show ?thesis by (simp add: update_conv')
qed

lemma map_of_Some_key: "map_of al k = Some v \<Longrightarrow> k \<in> fst ` set al"
  by (metis map_of_eq_None_iff option.distinct(1))

lemma process_file_keys:
  assumes "process_file APPLY filepath s = Inr s'"
  shows "map fst (disk s') = map fst (disk s)"
  using assms
proof (rule process_file_Inr)
  fix kvs items
  assume "map_of (disk s) filepath = Some (Json (JObj kvs))"
    and "disk s' =
          (if APPLY \<and> filter classified_remove items \<noteq> []
           then AList.update filepath
                  (Json (JObj (AList.update ''items'' (JArr (filter classified_keep items)) kvs)))
                  (disk s)
           else disk s)"
  then show ?thesis by (simp add: update_keys map_of_Some_key)
qed

lemma files_loop_other:
  "files_loop APPLY fs s = (s', r) \<Longrightarrow> q \<notin> set fs \<Longrightarrow> map_of (disk s') q = map_of (disk s) q"
proof (induction fs arbitrary: s)
  case Nil
  then show ?case by simp
next
  case (Cons p fs)
  show ?case
  proof (cases "process_file APPLY p s")
    case (Inl e)
    with Cons.prems show ?thesis by simp
  next
    case (Inr s1)
    with Cons.prems have "files_loop APPLY fs s1 = (s', r)" by simp
    from Cons.IH [OF this] Cons.prems(2) process_file_other [OF Inr, of q]
    show ?thesis by simp
  qed
qed

lemma files_loop_keys:
  "files_loop APPLY fs s = (s', r) \<Longrightarrow> map fst (disk s') = map fst (disk s)"
proof (induction fs arbitrary: s)
  case Nil
  then show ?case by simp
next
  case (Cons p fs)
  show ?case
  proof (cases "process_file APPLY p s")
    case (Inl e)
    with Cons.prems show ?thesis by simp
  next
    case (Inr s1)
    with Cons.prems have "files_loop APPLY fs s1 = (s', r)" by simp
    from Cons.IH [OF this] process_file_keys [OF Inr] show ?thesis by simp
  qed
qed

lemma files_loop_dry_run: "files_loop False fs s = (s', r) \<Longrightarrow> disk s' = disk s"
proof (induction fs arbitrary: s)
  case Nil
  then show ?case by simp
next
  case (Cons p fs)
  show ?case
  proof (cases "process_file False p s")
    case (Inl e)
    with Cons.prems show ?thesis by simp
  next
    case (Inr s1)
    with Cons.prems have "files_loop False fs s1 = (s', r)" by simp
    from Cons.IH [OF this] have "disk s' = disk s1" .
    moreover from Inr have "disk s1 = disk s" by (rule process_file_Inr) simp
    ultimately show ?thesis by simp
  qed
qed

text \<open>A finished loop has run each of its files once, on the content the file had at the start.\<close>

lemma files_loop_step:
  assumes "files_loop APPLY fs s = (s', None)" and "distinct fs" and "p \<in> set fs"
  shows "\<exists>s1 s2. process_file APPLY p s1 = Inr s2 \<and>
           map_of (disk s1) p = map_of (disk s) p \<and> map_of (disk s') p = map_of (disk s2) p"
  using assms
proof (induction fs arbitrary: s)
  case Nil
  then show ?case by simp
next
  case (Cons f fs)
  from Cons.prems(1) obtain s1 where f: "process_file APPLY f s = Inr s1"
    and rest: "files_loop APPLY fs s1 = (s', None)"
    by (cases "process_file APPLY f s") simp_all
  show ?case
  proof (cases "p = f")
    case True
    with Cons.prems(2) have "p \<notin> set fs" by simp
    from files_loop_other [OF rest this] f True show ?thesis by blast
  next
    case False
    with Cons.prems have "p \<in> set fs" and "distinct fs" by simp_all
    from Cons.IH [OF rest this(2) this(1)] obtain t1 t2 where
      "process_file APPLY p t1 = Inr t2" "map_of (disk t1) p = map_of (disk s1) p"
      "map_of (disk s') p = map_of (disk t2) p" by blast
    with process_file_other [OF f False] show ?thesis by metis
  qed
qed

lemma glob_files_distinct: "distinct (glob_files root st)"
  by (simp add: glob_files_def)

lemma last_path_join: "b \<noteq> [] \<Longrightarrow> last (path_join a b) = last b"
  by (simp add: path_join_def)

lemma glob_match_not_sql: "glob_match root p \<Longrightarrow> p \<noteq> sql_file root"
proof
  assume m: "glob_match root p" and eq: "p = sql_file root"
  define entry where "entry = drop (length (path_join (DATA_DIR root) [])) p"
  from m have "suffix ''_raw.json'' entry"
    by (simp add: glob_match_def Let_def entry_def)
  then obtain zs where e: "entry = zs @ ''_raw.json''" by (auto simp: suffix_def)
  then have "entry \<noteq> []" and "last entry = CHR ''n''" by simp_all
  then have "last p = CHR ''n''" unfolding entry_def by (metis last_drop drop_eq_Nil not_le)
  moreover have "last (sql_file root) = CHR ''l''"
    by (simp add: sql_file_def last_path_join)
  ultimately show False using eq by simp
qed

lemma glob_files_not_sql: "p \<in> set (glob_files root st) \<Longrightarrow> p \<noteq> sql_file root"
  by (auto simp: glob_files_def dest: glob_match_not_sql)


text \<open>Both loops run a list in two parts as they run it whole.\<close>

lemma items_loop_append:
  "items_loop restaurant (xs @ ys) kept removed all_removed =
     (case items_loop restaurant xs kept removed all_removed of
        Inl e \<Rightarrow> Inl e
      | Inr (kept', removed', all_removed') \<Rightarrow> items_loop restaurant ys kept' removed' all_removed')"
proof (induction xs arbitrary: kept removed all_removed)
  case Nil
  then show ?case by simp
next
  case (Cons x xs)
  then show ?case by (simp split: sum.splits prod.splits)
qed

lemma files_loop_append:
  "files_loop APPLY (xs @ ys) s =
     (case files_loop APPLY xs s of
        (s', None) \<Rightarrow> files_loop APPLY ys s'
      | (s', Some e) \<Rightarrow> (s', Some e))"
  by (induction xs arbitrary: s) (simp_all split: sum.splits)

subsection \<open>A finished run\<close>

lemma process_files_finished:
  assumes "raised (process_files APPLY root disk0) = None"
  obtains s out sql where
    "files_loop APPLY (glob_files root disk0)
       \<lparr>disk = disk0, total_removed = 0, total_kept = 0, all_removed_items = []\<rparr> = (s, None)"
    and "print_sql (kids_items_of (all_removed_items s)) = (out, None)"
    and "write_sql (kids_items_of (all_removed_items s)) (total_removed s) = (sql, None)"
    and "process_files APPLY root disk0 =
          \<lparr>files = AList.update (sql_file root) (Text sql) (disk s),
           removed_total = total_removed s, kept_total = total_kept s,
           printed_sql = out, raised = None\<rparr>"
proof -
  let ?init = "\<lparr>disk = disk0, total_removed = 0, total_kept = 0, all_removed_items = []\<rparr>"
  obtain s r where loop: "files_loop APPLY (glob_files root disk0) ?init = (s, r)"
    by (cases "files_loop APPLY (glob_files root disk0) ?init")
  with assms have r: "r = None"
    by (cases r) (simp_all add: process_files_def)
  obtain out r1 where pr: "print_sql (kids_items_of (all_removed_items s)) = (out, r1)"
    by (cases "print_sql (kids_items_of (all_removed_items s))")
  with assms loop r have r1: "r1 = None"
    by (cases r1) (simp_all add: process_files_def)
  obtain sql r2 where
    wr: "write_sql (kids_items_of (all_removed_items s)) (total_removed s) = (sql, r2)"
    by (cases "write_sql (kids_items_of (all_removed_items s)) (total_removed s)")
  with assms loop r pr r1 have r2: "r2 = None"
    by (simp add: process_files_def)
  from loop r pr r1 wr r2 show thesis
    by (intro that [of s out sql]) (simp_all add: process_files_def)
qed

lemma file_items_update:
  "file_items (JObj (AList.update ''items'' (JArr xs) kvs)) = Inr xs"
  by (simp add: file_items_def update_conv')

lemma filter_keep_all:
  assumes "\<forall>item \<in> set items. classified_keep item \<or> classified_remove item"
    and "filter classified_remove items = []"
  shows "filter classified_keep items = items"
proof -
  from assms(2) have "\<forall>item \<in> set items. \<not> classified_remove item"
    by (simp add: filter_empty_conv)
  with assms(1) show ?thesis by (simp add: filter_id_conv)
qed

text \<open>What a finished loop in apply mode leaves in each of its files.\<close>

lemma apply_loop_file:
  assumes "files_loop True fs s = (s', None)" and "distinct fs" and "filepath \<in> set fs"
  shows "\<exists>kvs items.
           map_of (disk s) filepath = Some (Json (JObj kvs)) \<and>
           file_items (JObj kvs) = Inr items \<and>
           (\<forall>item \<in> set items. classified_keep item \<or> classified_remove item) \<and>
           map_of (disk s') filepath =
             Some (Json (if filter classified_remove items = [] then JObj kvs
                         else JObj (AList.update ''items'' (JArr (filter classified_keep items)) kvs)))"
proof -
  from files_loop_step [OF assms] obtain s1 s2 where
    step: "process_file True filepath s1 = Inr s2"
    and before: "map_of (disk s1) filepath = map_of (disk s) filepath"
    and after: "map_of (disk s') filepath = map_of (disk s2) filepath" by auto
  from step show ?thesis
  proof (rule process_file_Inr)
    fix kvs items
    assume doc: "map_of (disk s1) filepath = Some (Json (JObj kvs))"
      and items: "file_items (JObj kvs) = Inr items"
      and total: "\<forall>item \<in> set items. classified_keep item \<or> classified_remove item"
      and disk: "disk s2 =
          (if True \<and> filter classified_remove items \<noteq> []
           then AList.update filepath
                  (Json (JObj (AList.update ''items'' (JArr (filter classified_keep items)) kvs)))
                  (disk s1)
           else disk s1)"
    have "map_of (disk s') filepath =
             Some (Json (if filter classified_remove items = [] then JObj kvs
                         else JObj (AList.update ''items'' (JArr (filter classified_keep items)) kvs)))"
      using after disk doc by (simp add: update_conv')
    with doc before items total show ?thesis by auto
  qed
qed

text \<open>Outside the SQL file, a run leaves the disk as its loop over the files left it.\<close>

lemma process_files_disk:
  assumes "files_loop APPLY (glob_files root disk0)
             \<lparr>disk = disk0, total_removed = 0, total_kept = 0, all_removed_items = []\<rparr> = (s, r)"
    and "p \<noteq> sql_file root"
  shows "map_of (files (process_files APPLY root disk0)) p = map_of (disk s) p"
proof (cases r)
  case (Some e)
  with assms(1) show ?thesis by (simp add: process_files_def)
next
  case None
  obtain out r1 where pr: "print_sql (kids_items_of (all_removed_items s)) = (out, r1)"
    by (cases "print_sql (kids_items_of (all_removed_items s))")
  obtain sql r2 where
    wr: "write_sql (kids_items_of (all_removed_items s)) (total_removed s) = (sql, r2)"
    by (cases "write_sql (kids_items_of (all_removed_items s)) (total_removed s)")
  from None assms pr wr show ?thesis
    by (cases r1) (simp_all add: process_files_def update_conv')
qed

text \<open>
  C5. In every run in apply mode, whether it finishes or an exception ends it later,
  every menu file the loop has processed holds, at the end of the run, its document with
  the item list replaced by the items classified keep, in their order and unchanged (or
  the untouched document, when no item was removed): the items read back are the
  original items filtered by the classifier's keep decision. The processed files are
  those of an initial part of the sorted file list that the loop gets through.
\<close>

theorem apply_writes_kept_items:
  assumes "glob_files root disk0 = processed @ rest"
    and "files_loop True processed
           \<lparr>disk = disk0, total_removed = 0, total_kept = 0, all_removed_items = []\<rparr> = (s, None)"
    and "filepath \<in> set processed"
  shows "\<exists>kvs items.
           map_of disk0 filepath = Some (Json (JObj kvs)) \<and>
           menu_items disk0 filepath = Inr items \<and>
           map_of (files (process_files True root disk0)) filepath =
             Some (Json (if filter classified_remove items = [] then JObj kvs
                         else JObj (AList.update ''items'' (JArr (filter classified_keep items)) kvs))) \<and>
           menu_items (files (process_files True root disk0)) filepath =
             Inr (filter classified_keep items)"
proof -
  let ?init = "\<lparr>disk = disk0, total_removed = 0, total_kept = 0, all_removed_items = []\<rparr>"
  from glob_files_distinct [of root disk0] assms(1)
  have d: "distinct processed" and sep: "set processed \<inter> set rest = {}" by simp_all
  with assms(3) have nr: "filepath \<notin> set rest" by auto
  obtain s2 r2 where rest: "files_loop True rest s = (s2, r2)"
    by (cases "files_loop True rest s")
  with assms(1,2) have whole: "files_loop True (glob_files root disk0) ?init = (s2, r2)"
    by (simp add: files_loop_append)
  have "filepath \<in> set (glob_files root disk0)" using assms(1,3) by simp
  from glob_files_not_sql [OF this] process_files_disk [OF whole] files_loop_other [OF rest nr]
  have final: "map_of (files (process_files True root disk0)) filepath = map_of (disk s) filepath"
    by simp
  from apply_loop_file [OF assms(2) d assms(3)] obtain kvs items where
    a: "map_of disk0 filepath = Some (Json (JObj kvs))"
    and items: "file_items (JObj kvs) = Inr items"
    and total: "\<forall>item \<in> set items. classified_keep item \<or> classified_remove item"
    and after: "map_of (disk s) filepath =
             Some (Json (if filter classified_remove items = [] then JObj kvs
                         else JObj (AList.update ''items'' (JArr (filter classified_keep items)) kvs)))"
    by auto
  have b: "menu_items disk0 filepath = Inr items"
    using a items by (simp add: menu_items_def json_load_def)
  have c: "map_of (files (process_files True root disk0)) filepath =
             Some (Json (if filter classified_remove items = [] then JObj kvs
                         else JObj (AList.update ''items'' (JArr (filter classified_keep items)) kvs)))"
    using final after by simp
  have e: "menu_items (files (process_files True root disk0)) filepath =
             Inr (filter classified_keep items)"
    using c items filter_keep_all [OF total]
    by (simp add: menu_items_def json_load_def file_items_update)
  from a b c e show ?thesis by blast
qed

theorem apply_writes_kept_items_witness:
  "glob_files ''/repo'' menu_broken =
     [''/repo/data/jsons/a_raw.json''] @ [''/repo/data/jsons/b_raw.json''] \<and>
   snd (files_loop True [''/repo/data/jsons/a_raw.json'']
          \<lparr>disk = menu_broken, total_removed = 0, total_kept = 0, all_removed_items = []\<rparr>) = None \<and>
   raised (process_files True ''/repo'' menu_broken) = Some JSONDecodeError \<and>
   menu_items menu_broken ''/repo/data/jsons/a_raw.json'' =
     Inr [JObj [(''name'', JStr ''Kid's Burger''), (''macros'', JObj [(''calories'', JInt 350)])],
          JObj [(''name'', JStr ''Side of Fries''), (''macros'', JObj [(''calories'', JInt 80)])],
          JObj [(''name'', JStr ''Grilled Chicken Bowl''), (''macros'', JObj [(''calories'', JInt 620)])]] \<and>
   menu_items (files (process_files True ''/repo'' menu_broken)) ''/repo/data/jsons/a_raw.json'' =
     Inr [JObj [(''name'', JStr ''Grilled Chicken Bowl''), (''macros'', JObj [(''calories'', JInt 620)])]]"
proof -
  let ?init = "\<lparr>disk = menu_broken, total_removed = 0, total_kept = 0, all_removed_items = []\<rparr>"
  let ?a = "''/repo/data/jsons/a_raw.json''"
  have g: "glob_files ''/repo'' menu_broken = [?a] @ [''/repo/data/jsons/b_raw.json'']"
    by code_simp
  have n: "snd (files_loop True [?a] ?init) = None" by code_simp
  then obtain s where l: "files_loop True [?a] ?init = (s, None)"
    by (cases "files_loop True [?a] ?init") simp
  have m: "?a \<in> set [?a]" by simp
  have r: "raised (process_files True ''/repo'' menu_broken) = Some JSONDecodeError" by code_simp
  have b: "menu_items menu_broken ?a =
     Inr [JObj [(''name'', JStr ''Kid's Burger''), (''macros'', JObj [(''calories'', JInt 350)])],
          JObj [(''name'', JStr ''Side of Fries''), (''macros'', JObj [(''calories'', JInt 80)])],
          JObj [(''name'', JStr ''Grilled Chicken Bowl''), (''macros'', JObj [(''calories'', JInt 620)])]]"
    by code_simp
  have k: "filter classified_keep
      [JObj [(''name'', JStr ''Kid's Burger''), (''macros'', JObj [(''calories'', JInt 350)])],
       JObj [(''name'', JStr ''Side of Fries''), (''macros'', JObj [(''calories'', JInt 80)])],
       JObj [(''name'', JStr ''Grilled Chicken Bowl''), (''macros'', JObj [(''calories'', JInt 620)])]] =
      [JObj [(''name'', JStr ''Grilled Chicken Bowl''), (''macros'', JObj [(''calories'', JInt 620)])]]"
    by code_simp
  from apply_writes_kept_items [OF g l m] b k
  have "menu_items (files (process_files True ''/repo'' menu_broken)) ?a =
     Inr [JObj [(''name'', JStr ''Grilled Chicken Bowl''), (''macros'', JObj [(''calories'', JInt 620)])]]"
    by auto
  with g n r b show ?thesis by simp
qed

subsection \<open>Dry run\<close>

text \<open>
  C7, as stated, fails: a dry run writes a file. On the example disk the SQL file does
  not exist before the run and exists after it.
\<close>

theorem dry_run_writes_sql_file:
  "map_of (files (process_files False ''/repo'' menu_a)) (sql_file ''/repo'') \<noteq>
   map_of menu_a (sql_file ''/repo'')"
  by code_simp

text \<open>A dry run leaves the disk as it was, or writes the SQL file and nothing else.\<close>

lemma dry_run_disk:
  "files (process_files False root disk0) = disk0 \<or>
   (\<exists>sql. raised (process_files False root disk0) = None \<and>
      files (process_files False root disk0) = AList.update (sql_file root) (Text sql) disk0)"
proof -
  let ?init = "\<lparr>disk = disk0, total_removed = 0, total_kept = 0, all_removed_items = []\<rparr>"
  obtain s r where loop: "files_loop False (glob_files root disk0) ?init = (s, r)"
    by (cases "files_loop False (glob_files root disk0) ?init")
  from files_loop_dry_run [OF loop] have d: "disk s = disk0" by simp
  show ?thesis
  proof (cases "raised (process_files False root disk0)")
    case None
    then show ?thesis
    proof (rule process_files_finished)
      fix s' out sql
      assume "files_loop False (glob_files root disk0) ?init = (s', None)"
        and "process_files False root disk0 =
          \<lparr>files = AList.update (sql_file root) (Text sql) (disk s'),
           removed_total = total_removed s', kept_total = total_kept s',
           printed_sql = out, raised = None\<rparr>"
      with loop d show ?thesis by auto
    qed
  next
    case (Some e)
    obtain out r1 where pr: "print_sql (kids_items_of (all_removed_items s)) = (out, r1)"
      by (cases "print_sql (kids_items_of (all_removed_items s))")
    have same: "r1 = None \<Longrightarrow> snd (write_sql (kids_items_of (all_removed_items s)) n) = None" for n
      using pr by (auto simp: print_sql_def write_sql_def Let_def split: if_splits sum.splits)
    obtain sql r2 where
      wr: "write_sql (kids_items_of (all_removed_items s)) (total_removed s) = (sql, r2)"
      by (cases "write_sql (kids_items_of (all_removed_items s)) (total_removed s)")
    from Some loop pr wr same [of "total_removed s"] d show ?thesis
      by (cases r; cases r1) (auto simp: process_files_def)
  qed
qed

text \<open>
  C7, amended. In dry-run mode no menu file is written: every path other than the SQL
  output file, and so every file the run reads, has the content it had before the run.
  The only write of a dry run is the SQL output file, written when the run finishes.
\<close>

theorem dry_run_writes_only_sql_file:
  "(\<forall>p. p \<noteq> sql_file root \<longrightarrow>
      map_of (files (process_files False root disk0)) p = map_of disk0 p) \<and>
   (\<forall>p \<in> set (glob_files root disk0).
      map_of (files (process_files False root disk0)) p = map_of disk0 p) \<and>
   (files (process_files False root disk0) = disk0 \<or>
    (\<exists>sql. raised (process_files False root disk0) = None \<and>
       files (process_files False root disk0) = AList.update (sql_file root) (Text sql) disk0))"
proof -
  note d = dry_run_disk [of root disk0]
  have 1: "map_of (files (process_files False root disk0)) p = map_of disk0 p"
    if "p \<noteq> sql_file root" for p
    using d that by (auto simp: update_conv')
  have 2: "map_of (files (process_files False root disk0)) p = map_of disk0 p"
    if "p \<in> set (glob_files root disk0)" for p
    using 1 glob_files_not_sql [OF that] by simp
  from 1 2 d show ?thesis by blast
qed

theorem dry_run_writes_only_sql_file_witness:
  "''/repo/data/jsons/joes_raw.json'' \<noteq> sql_file ''/repo'' \<and>
   ''/repo/data/jsons/joes_raw.json'' \<in> set (glob_files ''/repo'' menu_a) \<and>
   map_of (files (process_files False ''/repo'' menu_a)) ''/repo/data/jsons/joes_raw.json'' =
     map_of menu_a ''/repo/data/jsons/joes_raw.json'' \<and>
   raised (process_files False ''/repo'' menu_a) = None"
proof -
  have n: "''/repo/data/jsons/joes_raw.json'' \<noteq> sql_file ''/repo''" by code_simp
  have g: "''/repo/data/jsons/joes_raw.json'' \<in> set (glob_files ''/repo'' menu_a)" by code_simp
  have r: "raised (process_files False ''/repo'' menu_a) = None" by code_simp
  from dry_run_writes_only_sql_file [of "''/repo''" menu_a] n g r show ?thesis by blast
qed

subsection \<open>A second run in apply mode\<close>

lemma classified_keep_iff: "classified_keep item \<longleftrightarrow> should_remove item = Inr (False, [])"
  by (cases item rule: should_remove_cases)
    (auto simp: classified_keep_def dest: should_remove_keep_reason)

text \<open>A file whose items are all kept goes through untouched, and so does a loop over such files.\<close>

lemma process_file_all_keep:
  assumes "map_of (disk s) filepath = Some (Json (JObj kvs))"
    and "file_items (JObj kvs) = Inr items"
    and "\<forall>item \<in> set items. classified_keep item"
  shows "\<exists>s'. process_file APPLY filepath s = Inr s' \<and> disk s' = disk s \<and>
           total_removed s' = total_removed s \<and> all_removed_items s' = all_removed_items s"
proof -
  from assms(2) obtain items_v where get: "py_get (JObj kvs) ''items'' (JArr []) = Inr items_v"
    and iter: "py_iter items_v = Inr items"
    by (auto simp: file_items_def split: sum.splits)
  have load: "json_load (disk s) filepath = Inr (JObj kvs)"
    using assms(1) by (simp add: json_load_Inr)
  obtain restaurant where
    rest: "py_get (JObj kvs) ''restaurant_name'' (JStr (basename filepath)) = Inr restaurant"
    by simp
  have loop: "items_loop restaurant items [] [] (all_removed_items s)
      = Inr (items, [], all_removed_items s)"
    using items_loop_all_keep [OF assms(3), of restaurant "[]" "[]"] by simp
  show ?thesis
    unfolding process_file_def using load rest get iter loop
    by (simp del: py_get.simps)
qed

lemma files_loop_all_keep:
  assumes "\<forall>p \<in> set fs. \<exists>kvs items. map_of (disk s) p = Some (Json (JObj kvs)) \<and>
             file_items (JObj kvs) = Inr items \<and> (\<forall>item \<in> set items. classified_keep item)"
  shows "\<exists>s'. files_loop APPLY fs s = (s', None) \<and> disk s' = disk s \<and>
           total_removed s' = total_removed s \<and> all_removed_items s' = all_removed_items s"
  using assms
proof (induction fs arbitrary: s)
  case Nil
  then show ?case by simp
next
  case (Cons f fs)
  from Cons.prems obtain kvs items where "map_of (disk s) f = Some (Json (JObj kvs))"
    "file_items (JObj kvs) = Inr items" "\<forall>item \<in> set items. classified_keep item"
    by auto
  from process_file_all_keep [OF this, of APPLY] obtain s1 where
    f: "process_file APPLY f s = Inr s1" and same: "disk s1 = disk s"
    "total_removed s1 = total_removed s" "all_removed_items s1 = all_removed_items s" by blast
  from Cons.prems same(1) have "\<forall>p \<in> set fs. \<exists>kvs items.
      map_of (disk s1) p = Some (Json (JObj kvs)) \<and>
      file_items (JObj kvs) = Inr items \<and> (\<forall>item \<in> set items. classified_keep item)"
    by simp
  from Cons.IH [OF this] f same show ?case by auto
qed

text \<open>The SQL file is not a menu file: writing it does not change what the glob finds.\<close>

lemma glob_files_keys: "map fst st = map fst st' \<Longrightarrow> glob_files root st = glob_files root st'"
  by (simp add: glob_files_def)

lemma glob_files_sql_update:
  "glob_files root (AList.update (sql_file root) c st) = glob_files root st"
proof -
  have "\<not> glob_match root (sql_file root)" using glob_match_not_sql by blast
  then show ?thesis by (simp add: glob_files_def update_keys)
qed

lemma sql_without_kids:
  "\<exists>out. print_sql [] = (out, None)" "\<exists>sql. write_sql [] n = (sql, None)"
  by (simp_all add: print_sql_def write_sql_def Let_def)

text \<open>
  C6. After a finished run in apply mode, every item left in every menu file is
  classified keep, with the empty reason; so a second run in apply mode finishes too,
  removes no item, and leaves every file but the SQL output file as the first run left it.
\<close>

theorem second_apply_run_removes_nothing:
  assumes "raised (process_files True root disk0) = None"
  shows "raised (process_files True root (files (process_files True root disk0))) = None \<and>
         removed_total (process_files True root (files (process_files True root disk0))) = 0 \<and>
         (\<forall>p. p \<noteq> sql_file root \<longrightarrow>
            map_of (files (process_files True root (files (process_files True root disk0)))) p =
            map_of (files (process_files True root disk0)) p) \<and>
         (\<forall>p \<in> set (glob_files root disk0). \<exists>items.
            menu_items (files (process_files True root disk0)) p = Inr items \<and>
            (\<forall>item \<in> set items. should_remove item = Inr (False, [])))"
  using assms
proof (rule process_files_finished)
  fix s out sql
  let ?init = "\<lparr>disk = disk0, total_removed = 0, total_kept = 0, all_removed_items = []\<rparr>"
  let ?disk1 = "files (process_files True root disk0)"
  let ?init1 = "\<lparr>disk = ?disk1, total_removed = 0, total_kept = 0, all_removed_items = []\<rparr>"
  assume loop: "files_loop True (glob_files root disk0) ?init = (s, None)"
    and run: "process_files True root disk0 =
          \<lparr>files = AList.update (sql_file root) (Text sql) (disk s),
           removed_total = total_removed s, kept_total = total_kept s,
           printed_sql = out, raised = None\<rparr>"
  have glob: "glob_files root ?disk1 = glob_files root disk0"
    using run files_loop_keys [OF loop] glob_files_keys [of "disk s" disk0 root]
    by (simp add: glob_files_sql_update)
  have kept_file: "\<exists>kvs items. map_of ?disk1 p = Some (Json (JObj kvs)) \<and>
             file_items (JObj kvs) = Inr items \<and> (\<forall>item \<in> set items. classified_keep item)"
    if p: "p \<in> set (glob_files root disk0)" for p
  proof -
    from apply_loop_file [OF loop glob_files_distinct p] obtain kvs items where
      items: "file_items (JObj kvs) = Inr items"
      and total: "\<forall>item \<in> set items. classified_keep item \<or> classified_remove item"
      and after: "map_of (disk s) p =
             Some (Json (if filter classified_remove items = [] then JObj kvs
                         else JObj (AList.update ''items'' (JArr (filter classified_keep items)) kvs)))"
      by auto
    from after run glob_files_not_sql [OF p] have doc: "map_of ?disk1 p =
             Some (Json (if filter classified_remove items = [] then JObj kvs
                         else JObj (AList.update ''items'' (JArr (filter classified_keep items)) kvs)))"
      by (simp add: update_conv')
    show ?thesis
    proof (cases "filter classified_remove items = []")
      case True
      with filter_keep_all [OF total] have "\<forall>item \<in> set items. classified_keep item"
        by (metis filter_id_conv)
      with doc True items show ?thesis by auto
    next
      case False
      with doc have "map_of ?disk1 p =
          Some (Json (JObj (AList.update ''items'' (JArr (filter classified_keep items)) kvs)))"
        by simp
      moreover have "\<forall>item \<in> set (filter classified_keep items). classified_keep item" by simp
      ultimately show ?thesis using file_items_update by blast
    qed
  qed
  from files_loop_all_keep [of "glob_files root disk0" ?init1 True] kept_file obtain s2 where
    loop2: "files_loop True (glob_files root disk0) ?init1 = (s2, None)"
    and same: "disk s2 = ?disk1" "total_removed s2 = 0" "all_removed_items s2 = []"
    by auto
  let ?run2 = "process_files True root ?disk1"
  from sql_without_kids(1) obtain out2 where pr: "print_sql [] = (out2, None)" by blast
  from sql_without_kids(2) obtain sql2 where wr: "write_sql [] 0 = (sql2, None)" by blast
  have run2: "?run2 =
      \<lparr>files = AList.update (sql_file root) (Text sql2) ?disk1,
       removed_total = 0, kept_total = total_kept s2,
       printed_sql = out2, raised = None\<rparr>"
    using loop2 same pr wr
    by (simp add: process_files_def [of True root ?disk1] glob kids_items_of_def)
  have 1: "raised ?run2 = None" and 2: "removed_total ?run2 = 0"
    by (simp_all add: run2)
  have 3: "map_of (files ?run2) p = map_of ?disk1 p" if "p \<noteq> sql_file root" for p
    using that by (simp add: run2 update_conv')
  have 4: "\<exists>items. menu_items ?disk1 p = Inr items \<and>
            (\<forall>item \<in> set items. should_remove item = Inr (False, []))"
    if "p \<in> set (glob_files root disk0)" for p
    using kept_file [OF that] by (auto simp: menu_items_def json_load_def classified_keep_iff)
  from 1 2 3 4 show ?thesis by blast
qed

theorem second_apply_run_removes_nothing_witness:
  "raised (process_files True ''/repo'' menu_a) = None \<and>
   raised (process_files True ''/repo'' (files (process_files True ''/repo'' menu_a))) = None \<and>
   removed_total (process_files True ''/repo'' menu_a) = 2 \<and>
   removed_total (process_files True ''/repo'' (files (process_files True ''/repo'' menu_a))) = 0 \<and>
   ''/repo/data/jsons/joes_raw.json'' \<noteq> sql_file ''/repo'' \<and>
   map_of (files (process_files True ''/repo'' (files (process_files True ''/repo'' menu_a))))
       ''/repo/data/jsons/joes_raw.json'' =
     map_of (files (process_files True ''/repo'' menu_a)) ''/repo/data/jsons/joes_raw.json'' \<and>
   ''/repo/data/jsons/joes_raw.json'' \<in> set (glob_files ''/repo'' menu_a)"
proof -
  have r: "raised (process_files True ''/repo'' menu_a) = None" by code_simp
  have t: "removed_total (process_files True ''/repo'' menu_a) = 2" by code_simp
  have n: "''/repo/data/jsons/joes_raw.json'' \<noteq> sql_file ''/repo''" by code_simp
  have g: "''/repo/data/jsons/joes_raw.json'' \<in> set (glob_files ''/repo'' menu_a)" by code_simp
  from second_apply_run_removes_nothing [OF r] r t n g show ?thesis by blast
qed

subsection \<open>A removed item without a name\<close>

text \<open>The items loop gets through items that are kept, or removed and named.\<close>

lemma items_loop_passes:
  assumes "\<forall>i \<in> set items. classified_keep i \<or>
             (classified_remove i \<and> (\<exists>v. py_getitem i ''name'' = Inr v))"
  shows "\<exists>r. items_loop restaurant items kept removed all_removed = Inr r"
  using assms
proof (induction items arbitrary: kept removed all_removed)
  case Nil
  then show ?case by simp
next
  case (Cons item items)
  then show ?case
    by (cases item rule: should_remove_cases)
      (auto simp: classified_keep_def classified_remove_def)
qed

text \<open>
  C10. When the run reaches an item that the classifier marks removed and that has no
  \<^verbatim>\<open>name\<close> key (the earlier files and the earlier items of its file having gone through),
  building the removal record raises \<^verbatim>\<open>KeyError('name')\<close>: the run ends there, before any
  SQL is printed or written, although \<^const>\<open>should_remove\<close> has read the missing name as
  the empty string and classified the item.
\<close>

theorem missing_name_aborts_run:
  assumes "glob_files root disk0 = earlier @ filepath # later"
    and "files_loop APPLY earlier
           \<lparr>disk = disk0, total_removed = 0, total_kept = 0, all_removed_items = []\<rparr> = (s, None)"
    and "json_load (disk s) filepath = Inr data"
    and "file_items data = Inr (before @ JObj kvs # after)"
    and "\<forall>i \<in> set before. classified_keep i \<or>
           (classified_remove i \<and> (\<exists>v. py_getitem i ''name'' = Inr v))"
    and "should_remove (JObj kvs) = Inr (True, reason)"
    and "map_of kvs ''name'' = None"
  shows "get_lower (JObj kvs) ''name'' = Inr [] \<and>
         process_files APPLY root disk0 =
           \<lparr>files = disk s, removed_total = total_removed s, kept_total = total_kept s,
            printed_sql = [], raised = Some (KeyError ''name'')\<rparr>"
proof -
  from assms(4) obtain items_v where get: "py_get data ''items'' (JArr []) = Inr items_v"
    and iter: "py_iter items_v = Inr (before @ JObj kvs # after)"
    by (auto simp: file_items_def split: sum.splits)
  from get obtain fields where data: "data = JObj fields" by (auto dest: py_get_Inr)
  then obtain restaurant where
    rest: "py_get data ''restaurant_name'' (JStr (basename filepath)) = Inr restaurant"
    by simp
  from items_loop_passes [OF assms(5)] obtain kept removed all_removed where
    "items_loop restaurant before [] [] (all_removed_items s) = Inr (kept, removed, all_removed)"
    by (metis prod_cases3)
  then have "items_loop restaurant (before @ JObj kvs # after) [] [] (all_removed_items s)
      = Inl (KeyError ''name'')"
    using assms(6,7) by (simp add: items_loop_append)
  with assms(3) rest get iter have "process_file APPLY filepath s = Inl (KeyError ''name'')"
    by (simp add: process_file_def)
  with assms(1,2) have "files_loop APPLY (glob_files root disk0)
      \<lparr>disk = disk0, total_removed = 0, total_kept = 0, all_removed_items = []\<rparr>
      = (s, Some (KeyError ''name''))"
    by (simp add: files_loop_append)
  then have "process_files APPLY root disk0 =
           \<lparr>files = disk s, removed_total = total_removed s, kept_total = total_kept s,
            printed_sql = [], raised = Some (KeyError ''name'')\<rparr>"
    by (simp add: process_files_def)
  moreover from assms(7) have "get_lower (JObj kvs) ''name'' = Inr []"
    by (simp add: get_lower_def py_lower_def)
  ultimately show ?thesis by simp
qed

theorem missing_name_aborts_run_witness:
  "should_remove (JObj [(''macros'', JObj [(''calories'', JInt 50)])]) = Inr (True, ''low_cal (50 cal)'') \<and>
   map_of [(''macros'', JObj [(''calories'', JInt 50)])] ''name'' = None \<and>
   raised (process_files True ''/repo'' menu_noname) = Some (KeyError ''name'') \<and>
   files (process_files True ''/repo'' menu_noname) = menu_noname"
proof -
  let ?init = "\<lparr>disk = menu_noname, total_removed = 0, total_kept = 0, all_removed_items = []\<rparr>"
  let ?bowl = "JObj [(''name'', JStr ''Grilled Chicken Bowl''), (''macros'', JObj [(''calories'', JInt 620)])]"
  let ?kvs = "[(''macros'', JObj [(''calories'', JInt 50)])]"
  let ?data = "JObj [(''restaurant_name'', JStr ''Joe's''), (''items'', JArr [?bowl, JObj ?kvs])]"
  have 1: "glob_files ''/repo'' menu_noname = [] @ ''/repo/data/jsons/joes_raw.json'' # []"
    by code_simp
  have 2: "files_loop True [] ?init = (?init, None)" by simp
  have 3: "json_load (disk ?init) ''/repo/data/jsons/joes_raw.json'' = Inr ?data"
    by (simp add: json_load_def menu_noname_def)
  have 4: "file_items ?data = Inr ([?bowl] @ JObj ?kvs # [])"
    by (simp add: file_items_def)
  have "classified_keep ?bowl" by code_simp
  then have 5: "\<forall>i \<in> set [?bowl]. classified_keep i \<or>
           (classified_remove i \<and> (\<exists>v. py_getitem i ''name'' = Inr v))" by simp
  have 6: "should_remove (JObj ?kvs) = Inr (True, ''low_cal (50 cal)'')" by code_simp
  have 7: "map_of ?kvs ''name'' = None" by simp
  from missing_name_aborts_run [OF 1 2 3 4 5 6 7] 6 7 show ?thesis by simp
qed

subsection \<open>The conditions of the kids items\<close>

text \<open>The loop adds one condition per kids item, in order; it ends only if every name is a string.\<close>

lemma conditions_loop_acc:
  "conditions_loop kids_items acc = Inr conditions \<Longrightarrow>
     \<exists>new. conditions = acc @ new \<and> length new = length kids_items \<and>
       (\<forall>k < length kids_items. \<exists>restaurant item_name.
          rm_restaurant_name (kids_items ! k) = JStr restaurant \<and>
          rm_name (kids_items ! k) = JStr item_name \<and>
          new ! k = condition_text restaurant item_name)"
proof (induction kids_items arbitrary: acc)
  case Nil
  then show ?case by simp
next
  case (Cons item kids_items)
  from Cons.prems obtain item_name where n: "rm_name item = JStr item_name"
    by (cases "rm_name item") simp_all
  from Cons.prems n obtain restaurant where r: "rm_restaurant_name item = JStr restaurant"
    by (cases "rm_restaurant_name item") simp_all
  from Cons.prems n r have "conditions_loop kids_items
      (acc @ [condition_text restaurant item_name]) = Inr conditions"
    by (simp add: condition_text_def py_replace_quote)
  from Cons.IH [OF this] obtain new where new: "conditions = acc @ condition_text restaurant item_name # new"
    "length new = length kids_items"
    "\<forall>k < length kids_items. \<exists>restaurant item_name.
          rm_restaurant_name (kids_items ! k) = JStr restaurant \<and>
          rm_name (kids_items ! k) = JStr item_name \<and>
          new ! k = condition_text restaurant item_name"
    by auto
  have "\<exists>restaurant' item_name'.
          rm_restaurant_name ((item # kids_items) ! k) = JStr restaurant' \<and>
          rm_name ((item # kids_items) ! k) = JStr item_name' \<and>
          (condition_text restaurant item_name # new) ! k = condition_text restaurant' item_name'"
    if "k < length (item # kids_items)" for k
    using that new(3) n r by (cases k) auto
  with new(1,2) show ?case by auto
qed

text \<open>
  C9. When the conditions of the kids \<^verbatim>\<open>DELETE\<close> are built, there is one condition per
  removal record, in order; in it the restaurant name and the item name stand between
  single quotes with every single quote doubled and every other character unchanged.
\<close>

theorem kids_conditions_double_quotes:
  assumes "conditions_loop kids_items [] = Inr conditions"
  shows "length conditions = length kids_items \<and>
         (\<forall>k < length kids_items. \<exists>restaurant item_name.
            rm_restaurant_name (kids_items ! k) = JStr restaurant \<and>
            rm_name (kids_items ! k) = JStr item_name \<and>
            conditions ! k =
              ''  (restaurant_name = '' @ quote @ double_quotes restaurant @ quote @
              '' AND name = '' @ quote @ double_quotes item_name @ quote @ '')'')"
  using conditions_loop_acc [OF assms] by (auto simp: condition_text_def)

theorem kids_conditions_double_quotes_witness:
  "conditions_loop
     [\<lparr>rm_restaurant_name = JStr ''Joe's'', rm_name = JStr ''Kid's Burger'',
       rm_reason = ''kids_item (cal=350)''\<rparr>] [] =
     Inr [''  (restaurant_name = '' @ quote @ ''Joe'' @ quote @ quote @ ''s'' @ quote @
          '' AND name = '' @ quote @ ''Kid'' @ quote @ quote @ ''s Burger'' @ quote @ '')''] \<and>
   double_quotes ''Joe's'' = ''Joe'' @ quote @ quote @ ''s'' \<and>
   double_quotes ''Kid's Burger'' = ''Kid'' @ quote @ quote @ ''s Burger''"
proof -
  let ?kids = "[\<lparr>rm_restaurant_name = JStr ''Joe's'', rm_name = JStr ''Kid's Burger'',
       rm_reason = ''kids_item (cal=350)''\<rparr>]"
  let ?conds = "[''  (restaurant_name = '' @ quote @ ''Joe'' @ quote @ quote @ ''s'' @ quote @
          '' AND name = '' @ quote @ ''Kid'' @ quote @ quote @ ''s Burger'' @ quote @ '')'']"
  have c: "conditions_loop ?kids [] = Inr ?conds" by code_simp
  have d: "double_quotes ''Joe's'' = ''Joe'' @ quote @ quote @ ''s''"
    "double_quotes ''Kid's Burger'' = ''Kid'' @ quote @ quote @ ''s Burger''"
    by code_simp+
  from kids_conditions_double_quotes [OF c] c d show ?thesis by simp
qed

subsection \<open>Which records are kids items\<close>

text \<open>
  A \<^verbatim>\<open>low_cal\<close> reason never contains \<^verbatim>\<open>kids_item\<close>: the calorie value in it is a number,
  and its text has no letter k.
\<close>

lemma digit_char_not_k: "d < 10 \<Longrightarrow> digit_char d \<noteq> CHR ''k''"
proof
  assume d: "d < 10" and "digit_char d = CHR ''k''"
  then have "(of_char (char_of (48 + d)) :: nat) = of_char (CHR ''k'')"
    by (simp add: digit_char_def)
  with d show False by simp
qed

lemma digits10_no_k: "CHR ''k'' \<notin> set (digits10 n)"
proof (induction n rule: digits10.induct)
  case (1 n)
  show ?case
  proof (cases "n < 10")
    case True
    then show ?thesis using digit_char_not_k [of n] by (simp add: digits10.simps [of n])
  next
    case False
    with 1 digit_char_not_k [of "n mod 10"] show ?thesis
      by (simp add: digits10.simps [of n])
  qed
qed

lemma low_cal_reason_no_kids:
  assumes "py_le calories n = Inr low"
  shows "\<not> py_in ''kids_item'' (''low_cal ('' @ py_str calories @ '' cal)'')"
proof
  assume "py_in ''kids_item'' (''low_cal ('' @ py_str calories @ '' cal)'')"
  then have "set ''kids_item'' \<subseteq> set (''low_cal ('' @ py_str calories @ '' cal)'')"
    by (simp only: py_in_sublist set_mono_sublist)
  then have k: "CHR ''k'' \<in> set (py_str calories)" by auto
  from assms show False
  proof (cases calories)
    case (JInt i)
    with k digits10_no_k show ?thesis by (auto simp: str_int_def split: if_splits)
  next
    case (JBool b)
    with k show ?thesis by (cases b) auto
  qed simp_all
qed

text \<open>So the filter on \<^verbatim>\<open>'kids_item' in reason\<close> selects the items removed under rule 1.\<close>

lemma remove_reason_kids:
  assumes "should_remove item = Inr (True, reason)"
  shows "py_in ''kids_item'' reason \<longleftrightarrow> is_kids_item item"
proof -
  from assms obtain name where n: "get_lower item ''name'' = Inr name"
    by (auto simp: should_remove_def split: sum.splits)
  from assms n obtain category where c: "get_lower item ''category'' = Inr category"
    by (auto simp: should_remove_def split: sum.splits)
  from assms n c obtain calories where m: "get_calories item = Inr calories"
    by (auto simp: should_remove_def split: sum.splits)
  show ?thesis
  proof (cases "kids_match name category")
    case True
    with assms n c m have "reason = ''kids_item (cal='' @ py_str calories @ '')''"
      by (simp add: should_remove_def kids_loop_patterns)
    then have "py_in ''kids_item'' reason" by (simp add: py_in_sublist)
    with True n c show ?thesis by (simp add: is_kids_item_def)
  next
    case False
    with assms n c m obtain low where "py_le calories CALORIE_THRESHOLD = Inr low"
      and "reason = ''low_cal ('' @ py_str calories @ '' cal)''"
      by (auto simp: should_remove_def kids_loop_patterns split: sum.splits if_splits)
    with low_cal_reason_no_kids have "\<not> py_in ''kids_item'' reason" by blast
    with False n c show ?thesis by (simp add: is_kids_item_def)
  qed
qed

lemma kids_items_of_records:
  "kids_items_of (map (removal_record restaurant) (filter classified_remove items)) =
   map (removal_record restaurant) (filter is_kids_item (filter classified_remove items))"
proof -
  have "py_in ''kids_item'' (rm_reason (removal_record restaurant item)) \<longleftrightarrow> is_kids_item item"
    if "classified_remove item" for item
  proof (cases item rule: should_remove_cases)
    case (remove reason)
    with remove_reason_kids [OF remove] show ?thesis by (simp add: removal_record_def)
  qed (use that in \<open>simp_all add: classified_remove_def\<close>)
  then show ?thesis
    unfolding kids_items_of_def filter_map
    by (intro arg_cong [where f = "map (removal_record restaurant)"] filter_cong) (auto simp: o_def)
qed

text \<open>The records the loops add to \<^verbatim>\<open>all_removed_items\<close>.\<close>

lemma items_loop_records:
  "items_loop restaurant items kept removed all_removed = Inr (kept', removed', all_removed') \<Longrightarrow>
     all_removed' = all_removed @ map (removal_record restaurant) (filter classified_remove items)"
proof (induction items arbitrary: kept removed all_removed)
  case Nil
  then show ?case by simp
next
  case (Cons item items)
  show ?case
  proof (cases item rule: should_remove_cases)
    case (err e)
    with Cons.prems show ?thesis by simp
  next
    case (keep reason)
    with Cons.prems have "items_loop restaurant items (kept @ [item]) removed all_removed
        = Inr (kept', removed', all_removed')" by simp
    from Cons.IH [OF this] keep show ?thesis by (simp add: classified_remove_def)
  next
    case (remove reason)
    with Cons.prems obtain item_name where nm: "py_getitem item ''name'' = Inr item_name" and
      "items_loop restaurant items kept (removed @ [(item, reason)])
         (all_removed @ [\<lparr>rm_restaurant_name = restaurant, rm_name = item_name, rm_reason = reason\<rparr>])
        = Inr (kept', removed', all_removed')"
      by (auto split: sum.splits)
    from Cons.IH [OF this(2)] remove nm show ?thesis
      by (simp add: classified_remove_def removal_record_def)
  qed
qed

lemma file_removals_cong:
  "map_of st p = map_of st' p \<Longrightarrow> file_removals which st p = file_removals which st' p"
  by (simp add: file_removals_def json_load_def)

lemma process_file_records:
  assumes "process_file APPLY filepath s = Inr s'"
  shows "all_removed_items s' = all_removed_items s @ file_removals (\<lambda>item. True) (disk s) filepath \<and>
         total_removed s' = total_removed s + length (file_removals (\<lambda>item. True) (disk s) filepath)"
proof -
  from assms obtain data where load: "json_load (disk s) filepath = Inr data"
    by (auto simp: process_file_def split: sum.splits)
  from assms load obtain restaurant where
    rest: "py_get data ''restaurant_name'' (JStr (basename filepath)) = Inr restaurant"
    by (auto simp: process_file_def split: sum.splits)
  from assms load rest obtain items_v where
    get: "py_get data ''items'' (JArr []) = Inr items_v"
    by (auto simp: process_file_def split: sum.splits)
  from assms load rest get obtain items where iter: "py_iter items_v = Inr items"
    by (auto simp: process_file_def split: sum.splits)
  from assms load rest get iter obtain kept removed all_removed where
    loop: "items_loop restaurant items [] [] (all_removed_items s) = Inr (kept, removed, all_removed)"
    by (auto simp: process_file_def split: sum.splits)
  from items_loop_result [OF loop]
  have len: "length removed = length (filter classified_remove items)" by simp
  note recs = items_loop_records [OF loop]
  have fr: "file_removals (\<lambda>item. True) (disk s) filepath =
      map (removal_record restaurant) (filter classified_remove items)"
    using load rest get iter by (simp add: file_removals_def file_items_def)
  from assms load rest get iter loop
  have "all_removed_items s' = all_removed" and "total_removed s' = total_removed s + length removed"
    by (auto simp: process_file_def Let_def split: if_splits sum.splits)
  with recs len fr show ?thesis by simp
qed

lemma files_loop_records:
  assumes "files_loop APPLY fs s = (s', None)" and "distinct fs"
  shows "all_removed_items s' =
           all_removed_items s @ concat (map (file_removals (\<lambda>item. True) (disk s)) fs) \<and>
         total_removed s' =
           total_removed s + length (concat (map (file_removals (\<lambda>item. True) (disk s)) fs))"
  using assms
proof (induction fs arbitrary: s)
  case Nil
  then show ?case by simp
next
  case (Cons f fs)
  from Cons.prems(1) obtain s1 where f: "process_file APPLY f s = Inr s1"
    and rest: "files_loop APPLY fs s1 = (s', None)"
    by (cases "process_file APPLY f s") simp_all
  from Cons.prems(2) have d: "distinct fs" and nf: "f \<notin> set fs" by simp_all
  have "file_removals (\<lambda>item. True) (disk s1) p = file_removals (\<lambda>item. True) (disk s) p"
    if "p \<in> set fs" for p
    using that nf process_file_other [OF f, of p] by (intro file_removals_cong) auto
  then have same: "map (file_removals (\<lambda>item. True) (disk s1)) fs =
      map (file_removals (\<lambda>item. True) (disk s)) fs" by simp
  from Cons.IH [OF rest d] process_file_records [OF f] same show ?case by simp
qed

lemma kids_items_of_file:
  "kids_items_of (file_removals (\<lambda>item. True) st p) = file_removals is_kids_item st p"
  by (simp add: file_removals_def kids_items_of_records split: sum.splits)
    (simp add: kids_items_of_def)

lemma kids_items_of_files:
  "kids_items_of (concat (map (file_removals (\<lambda>item. True) st) fs)) =
   concat (map (file_removals is_kids_item st) fs)"
proof (induction fs)
  case Nil
  then show ?case by (simp add: kids_items_of_def)
next
  case (Cons f fs)
  have "kids_items_of (xs @ ys) = kids_items_of xs @ kids_items_of ys" for xs ys
    by (simp add: kids_items_of_def)
  with Cons kids_items_of_file show ?case by simp
qed

subsection \<open>The text printed and the text written\<close>

lemma threshold_text: "str_int CALORIE_THRESHOLD = ''100''"
  by code_simp

lemma print_sql_text:
  assumes "conditions_loop kids_items [] = Inr conditions"
  shows "print_sql kids_items =
     (''-- Delete kids menu items\<newline>'' @
      (if conditions = [] then ''-- No kids items found\<newline>''
       else kids_delete conditions @ ''\<newline>;\<newline>'') @
      ''\<newline>'' @
      ''-- Delete low calorie / single ingredient items (<=100 cal)\<newline>'' @
      threshold_delete @ ''\<newline>\<newline>'' @
      ''-- Verify: Count remaining items\<newline>'' @
      verify_select @ ''\<newline>\<newline>'', None)"
proof -
  from conditions_loop_acc [OF assms] have "conditions = [] \<longleftrightarrow> kids_items = []" by auto
  with assms show ?thesis
    by (simp add: print_sql_def prints_def threshold_text kids_delete_def threshold_delete_def
        verify_select_def)
qed

lemma write_sql_text:
  assumes "conditions_loop kids_items [] = Inr conditions"
  shows "write_sql kids_items n =
     (''-- AUTO-GENERATED: Cleanup script for menu_items table\<newline>'' @
      ''-- Generated by clean-menu-data.py\<newline>'' @
      ''-- Items to remove: '' @ str_nat n @ ''\<newline>\<newline>'' @
      ''-- Step 1: Delete kids menu items by name\<newline>'' @
      (if conditions = [] then [] else kids_delete conditions @ '';\<newline>\<newline>'') @
      ''-- Step 2: Delete all items with calories <= 100\<newline>'' @
      threshold_delete @ ''\<newline>\<newline>'' @
      ''-- Step 3: Verify remaining count\<newline>'' @
      verify_select @ ''\<newline>'', None)"
proof -
  from conditions_loop_acc [OF assms] have "conditions = [] \<longleftrightarrow> kids_items = []" by auto
  with assms show ?thesis
    by (simp add: write_sql_def threshold_text kids_delete_def threshold_delete_def
        verify_select_def)
qed

lemma print_sql_finished:
  "print_sql kids_items = (out, None) \<Longrightarrow> \<exists>conditions. conditions_loop kids_items [] = Inr conditions"
  by (cases "kids_items = []") (auto simp: print_sql_def Let_def split: sum.splits)

text \<open>
  C8, amended. In either mode, a finished run prints and writes the same three SQL
  statements: a \<^verbatim>\<open>DELETE\<close> whose conditions, one per item removed under rule 1 and joined
  by \<^verbatim>\<open>OR\<close>, match the pair of restaurant name and item name (left out when there is no
  such item); a \<^verbatim>\<open>DELETE\<close> of the rows whose calories, cast from the JSON field, are at
  most 100; and a \<^verbatim>\<open>SELECT COUNT(*)\<close>. The comment lines around them differ: the file has
  a header with the total of removed items and numbered steps; the console has its own
  comments, says so when there is no kids item, and puts the semicolon of the first
  \<^verbatim>\<open>DELETE\<close> on a line of its own.
\<close>

theorem sql_printed_and_written:
  assumes "raised (process_files APPLY root disk0) = None"
  shows "\<exists>conditions.
     conditions_loop (concat (map (file_removals is_kids_item disk0) (glob_files root disk0))) []
       = Inr conditions \<and>
     removed_total (process_files APPLY root disk0) =
       length (concat (map (file_removals (\<lambda>item. True) disk0) (glob_files root disk0))) \<and>
     printed_sql (process_files APPLY root disk0) =
       ''-- Delete kids menu items\<newline>'' @
       (if conditions = [] then ''-- No kids items found\<newline>''
        else kids_delete conditions @ ''\<newline>;\<newline>'') @
       ''\<newline>'' @
       ''-- Delete low calorie / single ingredient items (<=100 cal)\<newline>'' @
       threshold_delete @ ''\<newline>\<newline>'' @
       ''-- Verify: Count remaining items\<newline>'' @
       verify_select @ ''\<newline>\<newline>'' \<and>
     written_sql root (process_files APPLY root disk0) =
       ''-- AUTO-GENERATED: Cleanup script for menu_items table\<newline>'' @
       ''-- Generated by clean-menu-data.py\<newline>'' @
       ''-- Items to remove: '' @ str_nat (removed_total (process_files APPLY root disk0)) @
       ''\<newline>\<newline>'' @
       ''-- Step 1: Delete kids menu items by name\<newline>'' @
       (if conditions = [] then [] else kids_delete conditions @ '';\<newline>\<newline>'') @
       ''-- Step 2: Delete all items with calories <= 100\<newline>'' @
       threshold_delete @ ''\<newline>\<newline>'' @
       ''-- Step 3: Verify remaining count\<newline>'' @
       verify_select @ ''\<newline>''"
  using assms
proof (rule process_files_finished)
  fix s out sql
  let ?init = "\<lparr>disk = disk0, total_removed = 0, total_kept = 0, all_removed_items = []\<rparr>"
  let ?kids = "concat (map (file_removals is_kids_item disk0) (glob_files root disk0))"
  assume loop: "files_loop APPLY (glob_files root disk0) ?init = (s, None)"
    and pr: "print_sql (kids_items_of (all_removed_items s)) = (out, None)"
    and wr: "write_sql (kids_items_of (all_removed_items s)) (total_removed s) = (sql, None)"
    and run: "process_files APPLY root disk0 =
          \<lparr>files = AList.update (sql_file root) (Text sql) (disk s),
           removed_total = total_removed s, kept_total = total_kept s,
           printed_sql = out, raised = None\<rparr>"
  from files_loop_records [OF loop glob_files_distinct]
  have all: "all_removed_items s =
      concat (map (file_removals (\<lambda>item. True) disk0) (glob_files root disk0))"
    and total: "total_removed s =
      length (concat (map (file_removals (\<lambda>item. True) disk0) (glob_files root disk0)))"
    by simp_all
  have kids: "kids_items_of (all_removed_items s) = ?kids"
    by (simp only: all kids_items_of_files)
  from print_sql_finished pr kids obtain conditions where
    conds: "conditions_loop ?kids [] = Inr conditions" by metis
  have w: "written_sql root (process_files APPLY root disk0) = sql"
    by (simp add: run written_sql_def update_conv')
  have p: "printed_sql (process_files APPLY root disk0) = out"
    and t: "removed_total (process_files APPLY root disk0) = total_removed s"
    by (simp_all add: run)
  from pr kids print_sql_text [OF conds] p
  have 3: "printed_sql (process_files APPLY root disk0) =
       ''-- Delete kids menu items\<newline>'' @
       (if conditions = [] then ''-- No kids items found\<newline>''
        else kids_delete conditions @ ''\<newline>;\<newline>'') @
       ''\<newline>'' @
       ''-- Delete low calorie / single ingredient items (<=100 cal)\<newline>'' @
       threshold_delete @ ''\<newline>\<newline>'' @
       ''-- Verify: Count remaining items\<newline>'' @
       verify_select @ ''\<newline>\<newline>''"
    by (simp only: prod.inject)
  from wr kids write_sql_text [OF conds, of "total_removed s"] w t
  have 4: "written_sql root (process_files APPLY root disk0) =
       ''-- AUTO-GENERATED: Cleanup script for menu_items table\<newline>'' @
       ''-- Generated by clean-menu-data.py\<newline>'' @
       ''-- Items to remove: '' @ str_nat (removed_total (process_files APPLY root disk0)) @
       ''\<newline>\<newline>'' @
       ''-- Step 1: Delete kids menu items by name\<newline>'' @
       (if conditions = [] then [] else kids_delete conditions @ '';\<newline>\<newline>'') @
       ''-- Step 2: Delete all items with calories <= 100\<newline>'' @
       threshold_delete @ ''\<newline>\<newline>'' @
       ''-- Step 3: Verify remaining count\<newline>'' @
       verify_select @ ''\<newline>''"
    by (simp only: prod.inject)
  from t total have 2: "removed_total (process_files APPLY root disk0) =
       length (concat (map (file_removals (\<lambda>item. True) disk0) (glob_files root disk0)))"
    by simp
  from conds 2 3 4 show ?thesis by (intro exI [of _ conditions] conjI)
qed

text \<open>
  C8, as stated, fails: the text printed is not the text written behind a header. On the
  example disk the printed text occurs nowhere in the file; the file ends its first
  \<^verbatim>\<open>DELETE\<close> with \<^verbatim>\<open>');\<close>, which the console never prints; and the console's first comment
  is not in the file.
\<close>

theorem printed_sql_is_not_written_sql:
  "\<not> sublist (printed_sql (process_files False ''/repo'' menu_a))
       (written_sql ''/repo'' (process_files False ''/repo'' menu_a)) \<and>
   sublist (quote @ '');'') (written_sql ''/repo'' (process_files False ''/repo'' menu_a)) \<and>
   \<not> sublist (quote @ '');'') (printed_sql (process_files False ''/repo'' menu_a)) \<and>
   sublist ''-- Delete kids menu items'' (printed_sql (process_files False ''/repo'' menu_a)) \<and>
   \<not> sublist ''-- Delete kids menu items''
       (written_sql ''/repo'' (process_files False ''/repo'' menu_a))"
  by code_simp

theorem sql_printed_and_written_witness:
  "raised (process_files False ''/repo'' menu_a) = None \<and>
   concat (map (file_removals is_kids_item menu_a) (glob_files ''/repo'' menu_a)) =
     [\<lparr>rm_restaurant_name = JStr ''Joe's'', rm_name = JStr ''Kid's Burger'',
       rm_reason = ''kids_item (cal=350)''\<rparr>] \<and>
   removed_total (process_files False ''/repo'' menu_a) = 2 \<and>
   (\<exists>conditions.
      conditions_loop (concat (map (file_removals is_kids_item menu_a) (glob_files ''/repo'' menu_a))) []
        = Inr conditions \<and>
      printed_sql (process_files False ''/repo'' menu_a) =
       ''-- Delete kids menu items\<newline>'' @
       (if conditions = [] then ''-- No kids items found\<newline>''
        else kids_delete conditions @ ''\<newline>;\<newline>'') @
       ''\<newline>'' @
       ''-- Delete low calorie / single ingredient items (<=100 cal)\<newline>'' @
       threshold_delete @ ''\<newline>\<newline>'' @
       ''-- Verify: Count remaining items\<newline>'' @
       verify_select @ ''\<newline>\<newline>'')"
proof -
  have r: "raised (process_files False ''/repo'' menu_a) = None" by code_simp
  have k: "concat (map (file_removals is_kids_item menu_a) (glob_files ''/repo'' menu_a)) =
     [\<lparr>rm_restaurant_name = JStr ''Joe's'', rm_name = JStr ''Kid's Burger'',
       rm_reason = ''kids_item (cal=350)''\<rparr>]" by code_simp
  have t: "removed_total (process_files False ''/repo'' menu_a) = 2" by code_simp
  from sql_printed_and_written [OF r] r k t show ?thesis by blast
qed

end
